theory Spec2Isabelle
  imports Main "HOL-Library.Multiset" "HOL-Library.AList" "HOL-Library.Product_Lexorder"
begin

section \<open>The availability-ranking engine of the event page\<close>

text \<open>
  The ranking engine of the event page: \<^verbatim>\<open>rankByComparator\<close>,
  \<^verbatim>\<open>sortOrderToComparator\<close>, \<^verbatim>\<open>rankBySortOrder\<close>,
  \<^verbatim>\<open>determineMostSignificantLabel\<close>, \<^verbatim>\<open>labelResponses\<close> and
  \<^verbatim>\<open>responsePreferenceCardianlity\<close>.

  Conventions of the embedding.
  \<^item> A JavaScript \<^verbatim>\<open>number\<close> is an \<^typ>\<open>int\<close>: every number of the engine is a
    count, a rank, a preference value or a sum of products of those.
  \<^item> \<^verbatim>\<open>null\<close>/\<^verbatim>\<open>undefined\<close> is \<^term>\<open>None\<close>.
  \<^item> A \<^verbatim>\<open>throw\<close> is a value \<^term>\<open>Inl e\<close> of the result type; callbacks may
    throw, so key functions and comparators return results and the sort and the ranking
    loop pass a callback's error on.
  \<^item> A JavaScript \<^verbatim>\<open>Map\<close> is an association list in insertion order:
    \<^verbatim>\<open>get\<close> is \<^const>\<open>map_of\<close>, \<^verbatim>\<open>set\<close> is \<^const>\<open>AList.update\<close> (an
    existing key keeps its place, a new key goes to the end).
\<close>

subsection \<open>Errors\<close>

datatype error =
    ValueIsNull        \<comment> \<open>\<^verbatim>\<open>Error("Value is null or undefined")\<close>\<close>
  | LastItemIsNull     \<comment> \<open>\<^verbatim>\<open>Error("lastItem is null")\<close>\<close>
  | CouldNotFindRank   \<comment> \<open>\<^verbatim>\<open>Error("Could not find rank")\<close>\<close>

definition bindE :: "error + 'a \<Rightarrow> ('a \<Rightarrow> error + 'b) \<Rightarrow> error + 'b" where
  "bindE m k = (case m of Inl e \<Rightarrow> Inl e | Inr v \<Rightarrow> k v)"

definition assertNotNull :: "'a option \<Rightarrow> error + 'a" where
  "assertNotNull val = (case val of None \<Rightarrow> Inl ValueIsNull | Some v \<Rightarrow> Inr v)"

fun mapE :: "('a \<Rightarrow> error + 'b) \<Rightarrow> 'a list \<Rightarrow> error + 'b list" where
  "mapE f [] = Inr []"
| "mapE f (x # xs) = bindE (f x) (\<lambda>y. bindE (mapE f xs) (\<lambda>ys. Inr (y # ys)))"

subsection \<open>Data\<close>

record Option' =
  id' :: string
  date :: string

record SelectedOption =
  preference :: int
  uncertain :: bool
  optionId :: string

record Respondent =
  name :: "string option"

record Response =
  respondent :: Respondent
  selectedOptions :: "SelectedOption list"

record 'a Ranked =
  item :: 'a
  rank :: int

record RankLabels =
  leastNumberOfNosRank :: int
  leastNumberOfNosMaybesRank :: int
  bestScoreRank :: int
  overallRank :: int
  strictlySuperiorRank :: int

datatype Label =
    BestOverall | SecondBest | MostPreferred | FewestNos | FewestNosMaybes
  | Nothing | Suboptimal

type_synonym 'a SortOrder = "'a \<Rightarrow> error + int option"
type_synonym 'a ComparatorFn = "'a \<Rightarrow> 'a \<Rightarrow> error + int"

subsection \<open>The rank assignment utility\<close>

text \<open>
  \<^verbatim>\<open>Array.prototype.sort\<close> is a stable sort. It is modelled by the stable insertion
  sort: each item goes in front of the first item it does not compare greater than,
  the items taken from the last to the first. For a comparator that is a total preorder
  (every key comparator is one) every stable sort returns this list, so the model is
  exact there. For any other comparator ECMAScript leaves the order to the
  implementation: the dominance comparator is not transitive, and on some inputs an
  engine returns another order than this sort. What is proved of the dominance rank is
  either true of every order (no lookup fails, the keys of the returned map), or stated
  where the order is the same for every insertion-based sort: where the comparator
  returns 0 throughout, or where the input list is already in order for every pair of
  neighbours.
\<close>

fun insertBy :: "'a ComparatorFn \<Rightarrow> 'a \<Rightarrow> 'a list \<Rightarrow> error + 'a list" where
  "insertBy fn x [] = Inr [x]"
| "insertBy fn x (y # ys) =
     bindE (fn x y) (\<lambda>c.
       if c \<le> 0 then Inr (x # y # ys)
       else bindE (insertBy fn x ys) (\<lambda>zs. Inr (y # zs)))"

fun sortBy :: "'a ComparatorFn \<Rightarrow> 'a list \<Rightarrow> error + 'a list" where
  "sortBy fn [] = Inr []"
| "sortBy fn (x # xs) = bindE (sortBy fn xs) (insertBy fn x)"

text \<open>\<^verbatim>\<open>result[result.length - 1]\<close>: \<^verbatim>\<open>undefined\<close> on the empty array.\<close>

definition lastOf :: "'a list \<Rightarrow> 'a option" where
  "lastOf result = (if result = [] then None else Some (last result))"

text \<open>The loop of \<^verbatim>\<open>rankByComparator\<close> over \<^verbatim>\<open>baseRanking\<close>.\<close>

fun rankLoop ::
  "'a ComparatorFn \<Rightarrow> 'a Ranked list \<Rightarrow> 'a Ranked list \<Rightarrow> error + 'a Ranked list" where
  "rankLoop fn result [] = Inr result"
| "rankLoop fn result (it # rest) =
     (if length result = 0 then rankLoop fn (result @ [it]) rest
      else
        bindE (case lastOf result of None \<Rightarrow> Inl LastItemIsNull | Some l \<Rightarrow> Inr l)
          (\<lambda>lastItem.
        bindE (fn (item it) (item lastItem)) (\<lambda>c.
          if c = 0 then rankLoop fn (result @ [it\<lparr>rank := rank lastItem\<rparr>]) rest
          else rankLoop fn (result @ [it\<lparr>rank := rank lastItem + 1\<rparr>]) rest)))"

definition rankByComparator :: "'a list \<Rightarrow> 'a ComparatorFn \<Rightarrow> error + 'a Ranked list" where
  "rankByComparator arr fn =
     bindE (sortBy fn arr) (\<lambda>sorted.
       let baseRanking =
             map (\<lambda>(it, i). \<lparr>item = it, rank = int i\<rparr>) (zip sorted [0..<length sorted])
       in rankLoop fn [] baseRanking)"

definition sortOrderToComparator :: "'a SortOrder \<Rightarrow> 'a ComparatorFn" where
  "sortOrderToComparator f = (\<lambda>a b.
     bindE (f a) (\<lambda>aVal.
     bindE (f b) (\<lambda>bVal.
       if aVal = None \<and> bVal = None then Inr 0
       else if aVal = None then Inr 1
       else if bVal = None then Inr (- 1)
       else Inr (the aVal - the bVal))))"

definition rankBySortOrder :: "'a list \<Rightarrow> 'a SortOrder \<Rightarrow> error + 'a Ranked list" where
  "rankBySortOrder arr fn = rankByComparator arr (sortOrderToComparator fn)"

subsection \<open>Label selection\<close>

definition determineMostSignificantLabel :: "RankLabels \<Rightarrow> int \<Rightarrow> Label" where
  "determineMostSignificantLabel rl numberOfOptions =
     (if overallRank rl = 0 then BestOverall
      else if overallRank rl = 1 \<and> numberOfOptions > 2 then SecondBest
      else if bestScoreRank rl = 0 then MostPreferred
      else if leastNumberOfNosRank rl = 0 then FewestNos
      else if leastNumberOfNosMaybesRank rl = 0 then FewestNosMaybes
      else if strictlySuperiorRank rl > 0 then Suboptimal
      else Nothing)"

subsection \<open>Preference aggregation\<close>

type_synonym Tally = "(int \<times> int) list"
type_synonym Cardinality = "(string \<times> Tally) list"

fun responsePreferenceCardianlityLoop ::
  "Cardinality \<Rightarrow> SelectedOption list \<Rightarrow> error + Cardinality" where
  "responsePreferenceCardianlityLoop responsesPreferenceSet [] = Inr responsesPreferenceSet"
| "responsePreferenceCardianlityLoop responsesPreferenceSet (opt # rest) =
     (let s1 = (if map_of responsesPreferenceSet (optionId opt) = None
                then AList.update (optionId opt) [] responsesPreferenceSet
                else responsesPreferenceSet)
      in bindE (assertNotNull (map_of s1 (optionId opt))) (\<lambda>pref.
           let pref' = AList.update (preference opt)
                         ((case map_of pref (preference opt) of None \<Rightarrow> 0 | Some c \<Rightarrow> c) + 1)
                         pref
           in responsePreferenceCardianlityLoop (AList.update (optionId opt) pref' s1) rest))"

definition responsePreferenceCardianlity :: "SelectedOption list \<Rightarrow> error + Cardinality" where
  "responsePreferenceCardianlity allChosenOptions =
     responsePreferenceCardianlityLoop [] allChosenOptions"

subsection \<open>The five criteria\<close>

text \<open>\<^verbatim>\<open>val.get(k) ?? 0\<close>\<close>

definition getOr0 :: "Tally \<Rightarrow> int \<Rightarrow> int" where
  "getOr0 val k = (case map_of val k of None \<Rightarrow> 0 | Some c \<Rightarrow> c)"

definition leastNumberOfNosKey :: "Cardinality \<Rightarrow> Option' SortOrder" where
  "leastNumberOfNosKey card' x =
     (case map_of card' (id' x) of
        None \<Rightarrow> Inr None
      | Some val \<Rightarrow> Inr (Some (getOr0 val (- 1))))"

definition leastNumberOfNosMaybesKey :: "Cardinality \<Rightarrow> Option' SortOrder" where
  "leastNumberOfNosMaybesKey card' x =
     (case map_of card' (id' x) of
        None \<Rightarrow> Inr None
      | Some val \<Rightarrow> Inr (Some (getOr0 val (- 1) + getOr0 val 0)))"

definition bestScoreKey :: "Cardinality \<Rightarrow> Option' SortOrder" where
  "bestScoreKey card' x =
     (case map_of card' (id' x) of
        None \<Rightarrow> Inr None
      | Some val \<Rightarrow>
          (let product = foldl (\<lambda>acc (key, value). acc + key * value) 0 val
           in Inr (Some (- product))))"

text \<open>\<^verbatim>\<open>ranked.find((y) => y.item.id === i)\<close>\<close>

definition findRank :: "Option' Ranked list \<Rightarrow> string \<Rightarrow> Option' Ranked option" where
  "findRank ranked i = find (\<lambda>y. id' (item y) = i) ranked"

definition aggregateRankScore :: "int \<Rightarrow> Option' Ranked list \<Rightarrow> int" where
  "aggregateRankScore numberOfOptions rankingComponents =
     foldl (\<lambda>acc x. acc + x) 0
       (map (\<lambda>(x, i). int i * numberOfOptions + rank x)
          (zip rankingComponents [0..<length rankingComponents]))"

definition overallKey ::
  "int \<Rightarrow> Option' Ranked list \<Rightarrow> Option' Ranked list \<Rightarrow> Option' Ranked list \<Rightarrow>
   Option' SortOrder" where
  "overallKey numberOfOptions leastNumberOfNos leastNumberOfNosMaybes bestScore x =
     (case findRank leastNumberOfNos (id' x) of
        None \<Rightarrow> Inl CouldNotFindRank
      | Some numberOfNosRank \<Rightarrow>
     (case findRank leastNumberOfNosMaybes (id' x) of
        None \<Rightarrow> Inl CouldNotFindRank
      | Some numberOfNosMaybesRank \<Rightarrow>
     (case findRank bestScore (id' x) of
        None \<Rightarrow> Inl CouldNotFindRank
      | Some bestScoreRank' \<Rightarrow>
          Inr (Some (aggregateRankScore numberOfOptions
                       [bestScoreRank', numberOfNosMaybesRank, numberOfNosRank])))))"

definition rankComp :: "Option' Ranked list \<Rightarrow> Option' \<Rightarrow> Option' \<Rightarrow> error + int" where
  "rankComp ranked a b =
     bindE (assertNotNull (findRank ranked (id' a))) (\<lambda>ra.
     bindE (assertNotNull (findRank ranked (id' b))) (\<lambda>rb.
       Inr (rank ra - rank rb)))"

definition strictlySuperiorComparator ::
  "Option' Ranked list \<Rightarrow> Option' Ranked list \<Rightarrow> Option' Ranked list \<Rightarrow>
   Option' ComparatorFn" where
  "strictlySuperiorComparator leastNumberOfNos leastNumberOfNosMaybes bestScore a b =
     bindE (rankComp leastNumberOfNos a b) (\<lambda>nosComp.
     bindE (rankComp leastNumberOfNosMaybes a b) (\<lambda>nosMaybesComp.
     bindE (rankComp bestScore a b) (\<lambda>scoreComp.
       if nosComp = 0 \<and> nosMaybesComp = 0 \<and> scoreComp = 0 then Inr 0
       else if nosComp \<le> 0 \<and> nosMaybesComp \<le> 0 \<and> scoreComp \<le> 0 then Inr (- 1)
       else if nosComp \<ge> 0 \<and> nosMaybesComp \<ge> 0 \<and> scoreComp \<ge> 0 then Inr 1
       else Inr 0)))"

definition rankLabelsEntry ::
  "Option' Ranked list \<Rightarrow> Option' Ranked list \<Rightarrow> Option' Ranked list \<Rightarrow>
   Option' Ranked list \<Rightarrow> Option' Ranked list \<Rightarrow> string \<Rightarrow> error + (string \<times> RankLabels)" where
  "rankLabelsEntry leastNumberOfNos leastNumberOfNosMaybes bestScore overall strictlySuperior x =
     bindE (assertNotNull (findRank leastNumberOfNosMaybes x)) (\<lambda>nm.
     bindE (assertNotNull (findRank leastNumberOfNos x)) (\<lambda>n.
     bindE (assertNotNull (findRank bestScore x)) (\<lambda>s.
     bindE (assertNotNull (findRank overall x)) (\<lambda>ov.
     bindE (assertNotNull (findRank strictlySuperior x)) (\<lambda>ss.
       Inr (x, \<lparr>leastNumberOfNosRank = rank n,
                leastNumberOfNosMaybesRank = rank nm,
                bestScoreRank = rank s,
                overallRank = rank ov,
                strictlySuperiorRank = rank ss\<rparr>))))))"

text \<open>\<^verbatim>\<open>new Map(items)\<close>: the entries are set in order, a later one replacing an
  earlier one of the same key.\<close>

definition newMap :: "('k \<times> 'v) list \<Rightarrow> ('k \<times> 'v) list" where
  "newMap items = foldl (\<lambda>m (k, v). AList.update k v m) [] items"

type_synonym LabeledResponses = "(string \<times> RankLabels) list"

definition labelResponses :: "Option' list \<Rightarrow> Response list \<Rightarrow> error + LabeledResponses" where
  "labelResponses options responses =
     (let numberOfOptions = int (length options);
          allChosenOptions = concat (map selectedOptions responses)
      in
      bindE (responsePreferenceCardianlity allChosenOptions) (\<lambda>card'.
      bindE (rankBySortOrder options (leastNumberOfNosKey card')) (\<lambda>leastNumberOfNos.
      bindE (rankBySortOrder options (leastNumberOfNosMaybesKey card')) (\<lambda>leastNumberOfNosMaybes.
      bindE (rankBySortOrder options (bestScoreKey card')) (\<lambda>bestScore.
      bindE (rankBySortOrder options
               (overallKey numberOfOptions leastNumberOfNos leastNumberOfNosMaybes bestScore))
        (\<lambda>overall.
      bindE (rankByComparator options
               (strictlySuperiorComparator leastNumberOfNos leastNumberOfNosMaybes bestScore))
        (\<lambda>strictlySuperior.
      bindE (mapE (rankLabelsEntry leastNumberOfNos leastNumberOfNosMaybes bestScore
                     overall strictlySuperior)
               (map id' options)) (\<lambda>items.
        Inr (newMap items)))))))))"

text \<open>The label the page shows for an option: the cascade applied to the option's entry
  of the map, with \<^verbatim>\<open>options.length\<close>.\<close>

definition labelOf :: "Option' list \<Rightarrow> LabeledResponses \<Rightarrow> string \<Rightarrow> Label option" where
  "labelOf options labels i =
     map_option (\<lambda>data. determineMostSignificantLabel data (int (length options)))
       (map_of labels i)"

subsection \<open>The engine without exceptions\<close>

text \<open>
  The functions below are the engine read without its \<^verbatim>\<open>throw\<close>s: the sort, the
  ranking loop and the comparators on plain values. They are what the functions above
  return when no callback throws (lemmas \<open>rankByComparator_pure\<close> and
  \<open>labelResponses_pure\<close>), and the proofs go through them.
\<close>

fun insertP :: "('a \<Rightarrow> 'a \<Rightarrow> int) \<Rightarrow> 'a \<Rightarrow> 'a list \<Rightarrow> 'a list" where
  "insertP g x [] = [x]"
| "insertP g x (y # ys) = (if g x y \<le> 0 then x # y # ys else y # insertP g x ys)"

fun sortP :: "('a \<Rightarrow> 'a \<Rightarrow> int) \<Rightarrow> 'a list \<Rightarrow> 'a list" where
  "sortP g [] = []"
| "sortP g (x # xs) = insertP g x (sortP g xs)"

fun ranksFrom :: "('a \<Rightarrow> 'a \<Rightarrow> int) \<Rightarrow> 'a \<Rightarrow> int \<Rightarrow> 'a list \<Rightarrow> 'a Ranked list" where
  "ranksFrom g prev r [] = []"
| "ranksFrom g prev r (x # xs) =
     (if g x prev = 0 then \<lparr>item = x, rank = r\<rparr> # ranksFrom g x r xs
      else \<lparr>item = x, rank = r + 1\<rparr> # ranksFrom g x (r + 1) xs)"

definition ranksOf :: "('a \<Rightarrow> 'a \<Rightarrow> int) \<Rightarrow> 'a list \<Rightarrow> 'a Ranked list" where
  "ranksOf g sorted' =
     (case sorted' of [] \<Rightarrow> [] | x # xs \<Rightarrow> \<lparr>item = x, rank = 0\<rparr> # ranksFrom g x 0 xs)"

definition rankP :: "('a \<Rightarrow> 'a \<Rightarrow> int) \<Rightarrow> 'a list \<Rightarrow> 'a Ranked list" where
  "rankP g arr = ranksOf g (sortP g arr)"

definition keyComparator :: "('a \<Rightarrow> int option) \<Rightarrow> 'a \<Rightarrow> 'a \<Rightarrow> int" where
  "keyComparator k a b =
     (if k a = None \<and> k b = None then 0
      else if k a = None then 1
      else if k b = None then - 1
      else the (k a) - the (k b))"

definition keyval :: "int option \<Rightarrow> bool \<times> int" where
  "keyval v = (case v of None \<Rightarrow> (True, 0) | Some n \<Rightarrow> (False, n))"

definition pureRanks :: "'a list \<Rightarrow> 'a SortOrder \<Rightarrow> 'a Ranked list" where
  "pureRanks arr f = rankP (keyComparator (\<lambda>x. projr (f x))) arr"

definition rankAt :: "Option' Ranked list \<Rightarrow> string \<Rightarrow> int" where
  "rankAt ranked i = (case findRank ranked i of None \<Rightarrow> 0 | Some q \<Rightarrow> rank q)"

definition nosRanks :: "Option' list \<Rightarrow> Cardinality \<Rightarrow> Option' Ranked list" where
  "nosRanks options c = pureRanks options (leastNumberOfNosKey c)"

definition nosMaybesRanks :: "Option' list \<Rightarrow> Cardinality \<Rightarrow> Option' Ranked list" where
  "nosMaybesRanks options c = pureRanks options (leastNumberOfNosMaybesKey c)"

definition scoreRanks :: "Option' list \<Rightarrow> Cardinality \<Rightarrow> Option' Ranked list" where
  "scoreRanks options c = pureRanks options (bestScoreKey c)"

definition overallRanks :: "Option' list \<Rightarrow> Cardinality \<Rightarrow> Option' Ranked list" where
  "overallRanks options c =
     pureRanks options
       (overallKey (int (length options)) (nosRanks options c) (nosMaybesRanks options c)
          (scoreRanks options c))"

definition superiorRanks :: "Option' list \<Rightarrow> Cardinality \<Rightarrow> Option' Ranked list" where
  "superiorRanks options c =
     rankP (\<lambda>a b. projr (strictlySuperiorComparator (nosRanks options c)
                             (nosMaybesRanks options c) (scoreRanks options c) a b))
       options"

definition entryOf :: "Option' list \<Rightarrow> Cardinality \<Rightarrow> string \<Rightarrow> RankLabels" where
  "entryOf options c i =
     \<lparr>leastNumberOfNosRank = rankAt (nosRanks options c) i,
      leastNumberOfNosMaybesRank = rankAt (nosMaybesRanks options c) i,
      bestScoreRank = rankAt (scoreRanks options c) i,
      overallRank = rankAt (overallRanks options c) i,
      strictlySuperiorRank = rankAt (superiorRanks options c) i\<rparr>"

definition dominanceSign :: "int \<Rightarrow> int \<Rightarrow> int \<Rightarrow> int" where
  "dominanceSign nosComp nosMaybesComp scoreComp =
     (if nosComp = 0 \<and> nosMaybesComp = 0 \<and> scoreComp = 0 then 0
      else if nosComp \<le> 0 \<and> nosMaybesComp \<le> 0 \<and> scoreComp \<le> 0 then - 1
      else if nosComp \<ge> 0 \<and> nosMaybesComp \<ge> 0 \<and> scoreComp \<ge> 0 then 1
      else 0)"

text \<open>The tally of one option, from the Selected Options that name it, in order.\<close>

fun tallyFrom :: "Tally option \<Rightarrow> SelectedOption list \<Rightarrow> Tally option" where
  "tallyFrom t [] = t"
| "tallyFrom t (s # ss) =
     tallyFrom
       (Some (let pref = (case t of None \<Rightarrow> [] | Some p \<Rightarrow> p)
              in AList.update (preference s)
                   ((case map_of pref (preference s) of None \<Rightarrow> 0 | Some c \<Rightarrow> c) + 1) pref))
       ss"

section \<open>Properties\<close>

subsection \<open>The result monad\<close>

lemma bindE_Inr [simp]: "bindE (Inr v) k = k v"
  by (simp add: bindE_def)

lemma bindE_Inl [simp]: "bindE (Inl e) k = Inl e"
  by (simp add: bindE_def)

lemma assertNotNull_Some [simp]: "assertNotNull (Some v) = Inr v"
  by (simp add: assertNotNull_def)

lemma assertNotNull_None [simp]: "assertNotNull None = Inl ValueIsNull"
  by (simp add: assertNotNull_def)

lemma mset_insertP [simp]: "mset (insertP g x ys) = add_mset x (mset ys)"
  by (induction ys) auto

lemma mset_sortP [simp]: "mset (sortP g xs) = mset xs"
  by (induction xs) auto

lemma set_sortP [simp]: "set (sortP g xs) = set xs"
  using mset_sortP [of g xs] by (metis set_mset_mset)


lemma insertBy_pure:
  assumes "\<And>y. y \<in> set ys \<Longrightarrow> fn x y = Inr (g x y)"
  shows "insertBy fn x ys = Inr (insertP g x ys)"
  using assms by (induction ys) auto

lemma sortBy_pure:
  assumes "\<And>a b. a \<in> set xs \<Longrightarrow> b \<in> set xs \<Longrightarrow> fn a b = Inr (g a b)"
  shows "sortBy fn xs = Inr (sortP g xs)"
  using assms
proof (induction xs)
  case Nil
  then show ?case by simp
next
  case (Cons x xs)
  have "sortBy fn xs = Inr (sortP g xs)"
    using Cons by simp
  moreover have "insertBy fn x (sortP g xs) = Inr (insertP g x (sortP g xs))"
    by (rule insertBy_pure) (simp add: Cons.prems)
  ultimately show ?case by simp
qed

lemma rankLoop_pure:
  assumes "\<And>a b. a \<in> S \<Longrightarrow> b \<in> S \<Longrightarrow> fn a b = Inr (g a b)"
    and "item ` set base \<subseteq> S" and "item (last result) \<in> S" and "result \<noteq> []"
  shows "rankLoop fn result base =
         Inr (result @ ranksFrom g (item (last result)) (rank (last result)) (map item base))"
  using assms(2-)
proof (induction base arbitrary: result)
  case Nil
  then show ?case by simp
next
  case (Cons it rest)
  have c: "fn (item it) (item (last result)) = Inr (g (item it) (item (last result)))"
    using Cons.prems assms(1) by simp
  show ?case
  proof (cases "g (item it) (item (last result)) = 0")
    case True
    have "rankLoop fn (result @ [it\<lparr>rank := rank (last result)\<rparr>]) rest =
          Inr ((result @ [it\<lparr>rank := rank (last result)\<rparr>]) @
               ranksFrom g (item it) (rank (last result)) (map item rest))"
      using Cons.IH [of "result @ [it\<lparr>rank := rank (last result)\<rparr>]"] Cons.prems by simp
    then show ?thesis
      using Cons.prems c True by (simp add: lastOf_def)
  next
    case False
    have "rankLoop fn (result @ [it\<lparr>rank := rank (last result) + 1\<rparr>]) rest =
          Inr ((result @ [it\<lparr>rank := rank (last result) + 1\<rparr>]) @
               ranksFrom g (item it) (rank (last result) + 1) (map item rest))"
      using Cons.IH [of "result @ [it\<lparr>rank := rank (last result) + 1\<rparr>]"] Cons.prems by simp
    then show ?thesis
      using Cons.prems c False by (simp add: lastOf_def)
  qed
qed

lemma map_item_base:
  "length ns = length xs \<Longrightarrow>
   map item (map (\<lambda>(it, i). \<lparr>item = it, rank = int i\<rparr>) (zip xs ns)) = xs"
  by (induction xs ns rule: list_induct2') auto

lemma rankByComparator_pure:
  assumes "\<And>a b. a \<in> set arr \<Longrightarrow> b \<in> set arr \<Longrightarrow> fn a b = Inr (g a b)"
  shows "rankByComparator arr fn = Inr (rankP g arr)"
proof -
  have s: "sortBy fn arr = Inr (sortP g arr)"
    using assms by (rule sortBy_pure)
  show ?thesis
  proof (cases "sortP g arr")
    case Nil
    then show ?thesis
      by (simp add: rankByComparator_def s rankP_def ranksOf_def)
  next
    case (Cons x xs)
    have xs: "set (x # xs) = set arr"
      using set_sortP [of g arr] Cons by simp
    define ns where "ns = [1..<Suc (length xs)]"
    have ln: "length ns = length xs"
      by (simp add: ns_def del: upt_Suc)
    define base where "base = map (\<lambda>(it, i). \<lparr>item = it, rank = int i\<rparr>) (zip xs ns)"
    have mb: "map item base = xs"
      unfolding base_def using ln by (rule map_item_base)
    have z: "zip (x # xs) [0..<Suc (length xs)] = (x, 0) # zip xs ns"
      by (simp add: upt_conv_Cons ns_def del: upt_Suc)
    have sub: "item ` set base \<subseteq> set arr"
      using mb xs by (metis image_set set_subset_Cons)
    have "rankLoop fn [\<lparr>item = x, rank = 0\<rparr>] base =
          Inr ([\<lparr>item = x, rank = 0\<rparr>] @
               ranksFrom g (item (last [\<lparr>item = x, rank = 0\<rparr>]))
                 (rank (last [\<lparr>item = x, rank = 0\<rparr>])) (map item base))"
    proof (rule rankLoop_pure [where S = "set arr"])
      show "\<And>a b. a \<in> set arr \<Longrightarrow> b \<in> set arr \<Longrightarrow> fn a b = Inr (g a b)"
        using assms by simp
      show "item ` set base \<subseteq> set arr" by (rule sub)
      show "item (last [\<lparr>item = x, rank = 0\<rparr>]) \<in> set arr"
        using xs by auto
      show "[\<lparr>item = x, rank = 0::int\<rparr>] \<noteq> []" by simp
    qed
    then have "rankLoop fn [\<lparr>item = x, rank = 0\<rparr>] base =
          Inr (\<lparr>item = x, rank = 0\<rparr> # ranksFrom g x 0 xs)"
      by (simp add: mb)
    then show ?thesis
      by (simp add: rankByComparator_def s rankP_def ranksOf_def Cons z base_def del: upt_Suc)
  qed
qed

subsection \<open>ranksFrom\<close>

lemma map_item_ranksFrom [simp]: "map item (ranksFrom g p r xs) = xs"
  by (induction xs arbitrary: p r) auto

lemma length_ranksFrom [simp]: "length (ranksFrom g p r xs) = length xs"
  by (induction xs arbitrary: p r) auto

lemma map_item_ranksOf [simp]: "map item (ranksOf g s) = s"
  by (simp add: ranksOf_def split: list.splits)

lemma length_ranksOf [simp]: "length (ranksOf g s) = length s"
  by (simp add: ranksOf_def split: list.splits)

lemma ranksFrom_bounds:
  "q \<in> set (ranksFrom g p r xs) \<Longrightarrow> r \<le> rank q \<and> rank q \<le> r + int (length xs)"
proof (induction xs arbitrary: p r)
  case Nil
  then show ?case by simp
next
  case (Cons x xs)
  show ?case
  proof (cases "g x p = 0")
    case True
    with Cons.prems have "q = \<lparr>item = x, rank = r\<rparr> \<or> q \<in> set (ranksFrom g x r xs)"
      by simp
    then show ?thesis
      using Cons.IH [of x r] by auto
  next
    case False
    with Cons.prems
    have "q = \<lparr>item = x, rank = r + 1\<rparr> \<or> q \<in> set (ranksFrom g x (r + 1) xs)"
      by simp
    then show ?thesis
      using Cons.IH [of x "r + 1"] by auto
  qed
qed






lemma ranksOf_bounds:
  assumes "q \<in> set (ranksOf g s)"
  shows "0 \<le> rank q \<and> rank q \<le> int (length s) - 1"
proof (cases s)
  case Nil
  with assms show ?thesis by (simp add: ranksOf_def)
next
  case (Cons x xs)
  with assms have "q = \<lparr>item = x, rank = 0\<rparr> \<or> q \<in> set (ranksFrom g x 0 xs)"
    by (simp add: ranksOf_def)
  then show ?thesis
    using ranksFrom_bounds [of q g x 0 xs] Cons by auto
qed

lemma mset_item_rankP [simp]: "mset (map item (rankP g arr)) = mset arr"
  by (simp add: rankP_def)


lemma set_item_rankP [simp]: "item ` set (rankP g arr) = set arr"
  using mset_item_rankP [of g arr] by (metis set_map set_mset_mset)

subsection \<open>Key comparators\<close>

lemma sortOrderToComparator_pure:
  "f a = Inr (k a) \<Longrightarrow> f b = Inr (k b) \<Longrightarrow>
   sortOrderToComparator f a b = Inr (keyComparator k a b)"
  by (simp add: sortOrderToComparator_def keyComparator_def)

lemma rankBySortOrder_pure:
  assumes "\<And>a. a \<in> set arr \<Longrightarrow> f a = Inr (k a)"
  shows "rankBySortOrder arr f = Inr (rankP (keyComparator k) arr)"
  unfolding rankBySortOrder_def
  by (rule rankByComparator_pure) (simp add: sortOrderToComparator_pure assms)

lemma keyval_inj [simp]: "keyval u = keyval v \<longleftrightarrow> u = v"
  by (auto simp: keyval_def split: option.splits)

lemma keyComparator_le: "keyComparator k a b \<le> 0 \<longleftrightarrow> keyval (k a) \<le> keyval (k b)"
  by (auto simp: keyComparator_def keyval_def less_eq_prod_def split: option.splits)

lemma keyComparator_eq: "keyComparator k a b = 0 \<longleftrightarrow> k a = k b"
  by (auto simp: keyComparator_def split: option.splits)

lemma keyval_None_greatest: "keyval (Some n) < keyval None"
  by (simp add: keyval_def less_prod_def)

lemma keyval_Some_less: "keyval (Some m) < keyval (Some n) \<longleftrightarrow> m < n"
  by (auto simp: keyval_def less_prod_def)

lemma insertP_key: "insertP (keyComparator k) x ys = insort_key (\<lambda>x. keyval (k x)) x ys"
  by (induction ys) (simp_all add: keyComparator_le)

lemma sortP_key: "sortP (keyComparator k) xs = sort_key (\<lambda>x. keyval (k x)) xs"
  by (induction xs) (simp_all add: insertP_key sort_key_def)

lemma sorted_sortP_key: "sorted (map (\<lambda>x. keyval (k x)) (sortP (keyComparator k) xs))"
  by (simp add: sortP_key)

lemma ranksFrom_key_mono:
  assumes "sorted (map (\<lambda>x. keyval (k x)) (p # xs))"
    and "q \<in> set (ranksFrom (keyComparator k) p r xs)"
  shows "(k (item q) = k p \<longrightarrow> rank q = r) \<and> (k (item q) \<noteq> k p \<longrightarrow> r < rank q)"
  using assms
proof (induction xs arbitrary: p r)
  case Nil
  then show ?case by simp
next
  case (Cons x xs)
  have px: "keyval (k p) \<le> keyval (k x)" and sx: "sorted (map (\<lambda>x. keyval (k x)) (x # xs))"
    using Cons.prems(1) by simp_all
  have xq: "\<And>q. q \<in> set (ranksFrom (keyComparator k) x r' xs) \<Longrightarrow>
               keyval (k x) \<le> keyval (k (item q))" for r'
  proof -
    fix q assume "q \<in> set (ranksFrom (keyComparator k) x r' xs)"
    then have "item q \<in> set (map item (ranksFrom (keyComparator k) x r' xs))"
      by (metis image_eqI set_map)
    then have "item q \<in> set xs" by simp
    then show "keyval (k x) \<le> keyval (k (item q))"
      using sx by auto
  qed
  show ?case
  proof (cases "k x = k p")
    case True
    then have "q = \<lparr>item = x, rank = r\<rparr> \<or> q \<in> set (ranksFrom (keyComparator k) x r xs)"
      using Cons.prems(2) by (simp add: keyComparator_eq)
    then show ?thesis
    proof
      assume "q = \<lparr>item = x, rank = r\<rparr>"
      then show ?thesis using True by simp
    next
      assume "q \<in> set (ranksFrom (keyComparator k) x r xs)"
      then show ?thesis
        using Cons.IH [OF sx, of r] True by simp
    qed
  next
    case False
    then have "q = \<lparr>item = x, rank = r + 1\<rparr> \<or>
               q \<in> set (ranksFrom (keyComparator k) x (r + 1) xs)"
      using Cons.prems(2) by (simp add: keyComparator_eq)
    then show ?thesis
    proof
      assume "q = \<lparr>item = x, rank = r + 1\<rparr>"
      then show ?thesis using False by simp
    next
      assume q: "q \<in> set (ranksFrom (keyComparator k) x (r + 1) xs)"
      have "r + 1 \<le> rank q"
        using ranksFrom_bounds [OF q] by simp
      moreover have "k (item q) \<noteq> k p"
      proof
        assume "k (item q) = k p"
        then have "keyval (k x) \<le> keyval (k p)"
          using xq [OF q] by simp
        then have "keyval (k x) = keyval (k p)"
          using px by simp
        then show False using False by simp
      qed
      ultimately show ?thesis by simp
    qed
  qed
qed

lemma ranks_key_pairwise:
  assumes "sorted (map (\<lambda>x. keyval (k x)) (p # xs))"
    and "a \<in> set (\<lparr>item = p, rank = r\<rparr> # ranksFrom (keyComparator k) p r xs)"
    and "b \<in> set (\<lparr>item = p, rank = r\<rparr> # ranksFrom (keyComparator k) p r xs)"
  shows "(k (item a) = k (item b) \<longrightarrow> rank a = rank b) \<and>
         (keyval (k (item a)) < keyval (k (item b)) \<longrightarrow> rank a < rank b)"
  using assms
proof (induction xs arbitrary: p r)
  case Nil
  then show ?case by simp
next
  case (Cons x xs)
  let ?g = "keyComparator k"
  define r' where "r' = (if ?g x p = 0 then r else r + 1)"
  have unfold: "ranksFrom ?g p r (x # xs) = \<lparr>item = x, rank = r'\<rparr> # ranksFrom ?g x r' xs"
    by (simp add: r'_def)
  have sx: "sorted (map (\<lambda>x. keyval (k x)) (x # xs))"
    using Cons.prems(1) by simp
  have tail: "\<And>q. q \<in> set (ranksFrom ?g p r (x # xs)) \<Longrightarrow>
      keyval (k p) \<le> keyval (k (item q)) \<and>
      (k (item q) = k p \<longrightarrow> rank q = r) \<and> (k (item q) \<noteq> k p \<longrightarrow> r < rank q)"
  proof -
    fix q assume q: "q \<in> set (ranksFrom ?g p r (x # xs))"
    then have "item q \<in> set (map item (ranksFrom ?g p r (x # xs)))"
      by (metis image_eqI set_map)
    then have "item q \<in> set (x # xs)"
      by (simp only: map_item_ranksFrom)
    then have "keyval (k p) \<le> keyval (k (item q))"
      using Cons.prems(1) by auto
    then show "keyval (k p) \<le> keyval (k (item q)) \<and>
      (k (item q) = k p \<longrightarrow> rank q = r) \<and> (k (item q) \<noteq> k p \<longrightarrow> r < rank q)"
      using ranksFrom_key_mono [OF Cons.prems(1) q] by simp
  qed
  have hd_a: "a = \<lparr>item = p, rank = r\<rparr> \<or> a \<in> set (ranksFrom ?g p r (x # xs))"
    using Cons.prems(2) by simp
  have hd_b: "b = \<lparr>item = p, rank = r\<rparr> \<or> b \<in> set (ranksFrom ?g p r (x # xs))"
    using Cons.prems(3) by simp
  show ?case
  proof (cases "a = \<lparr>item = p, rank = r\<rparr>")
    case a: True
    show ?thesis
    proof (cases "b = \<lparr>item = p, rank = r\<rparr>")
      case True
      with a show ?thesis by simp
    next
      case False
      with hd_b have "b \<in> set (ranksFrom ?g p r (x # xs))" by simp
      from tail [OF this] a show ?thesis by auto
    qed
  next
    case a: False
    with hd_a have a': "a \<in> set (ranksFrom ?g p r (x # xs))" by simp
    show ?thesis
    proof (cases "b = \<lparr>item = p, rank = r\<rparr>")
      case True
      from tail [OF a'] True show ?thesis by auto
    next
      case False
      with hd_b have b': "b \<in> set (ranksFrom ?g p r (x # xs))" by simp
      show ?thesis
        using Cons.IH [OF sx, of r'] a' b' unfolding unfold by simp
    qed
  qed
qed

lemma rankP_key_pairwise:
  assumes "a \<in> set (rankP (keyComparator k) arr)" and "b \<in> set (rankP (keyComparator k) arr)"
  shows "(k (item a) = k (item b) \<longrightarrow> rank a = rank b) \<and>
         (keyval (k (item a)) < keyval (k (item b)) \<longrightarrow> rank a < rank b)"
proof (cases "sortP (keyComparator k) arr")
  case Nil
  with assms show ?thesis by (simp add: rankP_def ranksOf_def)
next
  case (Cons p xs)
  have s: "sorted (map (\<lambda>x. keyval (k x)) (p # xs))"
    using sorted_sortP_key [of k arr] Cons by simp
  have e: "rankP (keyComparator k) arr =
           \<lparr>item = p, rank = 0\<rparr> # ranksFrom (keyComparator k) p 0 xs"
    by (simp add: rankP_def ranksOf_def Cons)
  show ?thesis
    using ranks_key_pairwise [OF s] assms unfolding e by blast
qed

subsection \<open>Lookups\<close>

lemma rankBySortOrder_total:
  assumes "\<And>a. a \<in> set arr \<Longrightarrow> \<exists>v. f a = Inr v"
  shows "rankBySortOrder arr f = Inr (pureRanks arr f)"
  unfolding pureRanks_def
proof (rule rankBySortOrder_pure)
  fix a assume "a \<in> set arr"
  then obtain v where "f a = Inr v" using assms by blast
  then show "f a = Inr (projr (f a))" by simp
qed

lemma rankByComparator_total:
  assumes "\<And>a b. a \<in> set arr \<Longrightarrow> b \<in> set arr \<Longrightarrow> \<exists>v. fn a b = Inr v"
  shows "rankByComparator arr fn = Inr (rankP (\<lambda>a b. projr (fn a b)) arr)"
proof (rule rankByComparator_pure)
  fix a b assume "a \<in> set arr" "b \<in> set arr"
  then obtain v where "fn a b = Inr v" using assms by blast
  then show "fn a b = Inr (projr (fn a b))" by simp
qed

lemma findRank_Some:
  "findRank ranked i = Some q \<Longrightarrow> q \<in> set ranked \<and> id' (item q) = i"
  unfolding findRank_def by (induction ranked) (auto split: if_splits)

lemma findRank_exists:
  assumes "x \<in> item ` set ranked"
  shows "\<exists>q. findRank ranked (id' x) = Some q"
proof (cases "findRank ranked (id' x)")
  case None
  then have "\<forall>y\<in>set ranked. id' (item y) \<noteq> id' x"
    unfolding findRank_def by (simp add: find_None_iff)
  with assms show ?thesis by auto
next
  case (Some q)
  then show ?thesis by simp
qed

lemma findRank_rankP:
  assumes "x \<in> set arr"
  shows "\<exists>q. findRank (rankP g arr) (id' x) = Some q \<and> q \<in> set (rankP g arr) \<and>
             id' (item q) = id' x \<and> rankAt (rankP g arr) (id' x) = rank q"
proof -
  have "x \<in> item ` set (rankP g arr)"
    using assms by simp
  then obtain q where q: "findRank (rankP g arr) (id' x) = Some q"
    using findRank_exists by blast
  then show ?thesis
    using findRank_Some [OF q] by (simp add: rankAt_def)
qed

lemma findRank_absent:
  assumes "i \<notin> id' ` set arr"
  shows "findRank (rankP g arr) i = None"
proof (cases "findRank (rankP g arr) i")
  case None
  then show ?thesis .
next
  case (Some q)
  then have "q \<in> set (rankP g arr)" and "id' (item q) = i"
    using findRank_Some by blast+
  then have "item q \<in> set arr"
    using set_item_rankP [of g arr] by blast
  with \<open>id' (item q) = i\<close> assms show ?thesis by blast
qed

subsection \<open>The engine never throws\<close>

lemma cardinalityLoop_total: "\<exists>c. responsePreferenceCardianlityLoop m sels = Inr c"
proof (induction sels arbitrary: m)
  case Nil
  then show ?case by simp
next
  case (Cons s sels)
  show ?case
  proof (cases "map_of m (optionId s)")
    case None
    then show ?thesis
      using Cons.IH by (simp add: update_conv')
  next
    case (Some p)
    then show ?thesis
      using Cons.IH by simp
  qed
qed

lemma cardinality_total: "\<exists>c. responsePreferenceCardianlity sels = Inr c"
  unfolding responsePreferenceCardianlity_def by (rule cardinalityLoop_total)

lemma nosKey_total: "\<exists>v. leastNumberOfNosKey c x = Inr v"
  by (simp add: leastNumberOfNosKey_def split: option.splits)

lemma nosMaybesKey_total: "\<exists>v. leastNumberOfNosMaybesKey c x = Inr v"
  by (simp add: leastNumberOfNosMaybesKey_def split: option.splits)

lemma scoreKey_total: "\<exists>v. bestScoreKey c x = Inr v"
  by (simp add: bestScoreKey_def Let_def split: option.splits)

lemma aggregateRankScore_3:
  "aggregateRankScore n [a, b, c] = 3 * n + rank a + rank b + rank c"
  by (simp add: aggregateRankScore_def upt_rec)

lemma overallKey_found:
  assumes "findRank nosL (id' x) = Some qn" "findRank nmL (id' x) = Some qm"
    "findRank bsL (id' x) = Some qs"
  shows "overallKey n nosL nmL bsL x = Inr (Some (3 * n + rank qs + rank qm + rank qn))"
  using assms by (simp add: overallKey_def aggregateRankScore_3)

lemma overallKey_rankP:
  assumes "x \<in> set arr"
  shows "overallKey n (rankP g1 arr) (rankP g2 arr) (rankP g3 arr) x =
         Inr (Some (3 * n + rankAt (rankP g3 arr) (id' x) + rankAt (rankP g2 arr) (id' x)
                    + rankAt (rankP g1 arr) (id' x)))"
proof -
  obtain q1 q2 q3 where
    "findRank (rankP g1 arr) (id' x) = Some q1" "rankAt (rankP g1 arr) (id' x) = rank q1"
    "findRank (rankP g2 arr) (id' x) = Some q2" "rankAt (rankP g2 arr) (id' x) = rank q2"
    "findRank (rankP g3 arr) (id' x) = Some q3" "rankAt (rankP g3 arr) (id' x) = rank q3"
    using findRank_rankP [OF assms, of g1] findRank_rankP [OF assms, of g2]
      findRank_rankP [OF assms, of g3] by blast
  then show ?thesis
    by (simp add: overallKey_found)
qed

lemma rankComp_rankP:
  assumes "a \<in> set arr" "b \<in> set arr"
  shows "rankComp (rankP g arr) a b =
         Inr (rankAt (rankP g arr) (id' a) - rankAt (rankP g arr) (id' b))"
proof -
  obtain qa qb where
    "findRank (rankP g arr) (id' a) = Some qa" "rankAt (rankP g arr) (id' a) = rank qa"
    "findRank (rankP g arr) (id' b) = Some qb" "rankAt (rankP g arr) (id' b) = rank qb"
    using findRank_rankP [OF assms(1), of g] findRank_rankP [OF assms(2), of g] by blast
  then show ?thesis
    by (simp add: rankComp_def)
qed

lemma strictlySuperiorComparator_rankP:
  assumes "a \<in> set arr" "b \<in> set arr"
  shows "strictlySuperiorComparator (rankP g1 arr) (rankP g2 arr) (rankP g3 arr) a b =
         Inr (dominanceSign
                (rankAt (rankP g1 arr) (id' a) - rankAt (rankP g1 arr) (id' b))
                (rankAt (rankP g2 arr) (id' a) - rankAt (rankP g2 arr) (id' b))
                (rankAt (rankP g3 arr) (id' a) - rankAt (rankP g3 arr) (id' b)))"
  unfolding strictlySuperiorComparator_def
  by (simp add: rankComp_rankP [OF assms] dominanceSign_def)

lemma rankLabelsEntry_rankP:
  assumes "x \<in> set arr"
  shows "rankLabelsEntry (rankP g1 arr) (rankP g2 arr) (rankP g3 arr) (rankP g4 arr)
           (rankP g5 arr) (id' x) =
         Inr (id' x,
              \<lparr>leastNumberOfNosRank = rankAt (rankP g1 arr) (id' x),
               leastNumberOfNosMaybesRank = rankAt (rankP g2 arr) (id' x),
               bestScoreRank = rankAt (rankP g3 arr) (id' x),
               overallRank = rankAt (rankP g4 arr) (id' x),
               strictlySuperiorRank = rankAt (rankP g5 arr) (id' x)\<rparr>)"
proof -
  obtain q1 q2 q3 q4 q5 where
    "findRank (rankP g1 arr) (id' x) = Some q1" "rankAt (rankP g1 arr) (id' x) = rank q1"
    "findRank (rankP g2 arr) (id' x) = Some q2" "rankAt (rankP g2 arr) (id' x) = rank q2"
    "findRank (rankP g3 arr) (id' x) = Some q3" "rankAt (rankP g3 arr) (id' x) = rank q3"
    "findRank (rankP g4 arr) (id' x) = Some q4" "rankAt (rankP g4 arr) (id' x) = rank q4"
    "findRank (rankP g5 arr) (id' x) = Some q5" "rankAt (rankP g5 arr) (id' x) = rank q5"
    using findRank_rankP [OF assms, of g1] findRank_rankP [OF assms, of g2]
      findRank_rankP [OF assms, of g3] findRank_rankP [OF assms, of g4]
      findRank_rankP [OF assms, of g5] by blast
  then show ?thesis
    by (simp add: rankLabelsEntry_def)
qed

lemma mapE_pure:
  assumes "\<And>x. x \<in> set xs \<Longrightarrow> f x = Inr (h x)"
  shows "mapE f xs = Inr (map h xs)"
  using assms by (induction xs) auto

lemma labelResponses_pure:
  assumes c: "responsePreferenceCardianlity (concat (map selectedOptions responses)) = Inr c"
  shows "labelResponses options responses =
         Inr (newMap (map (\<lambda>i. (i, entryOf options c i)) (map id' options)))"
proof -
  let ?n = "int (length options)"
  have n: "rankBySortOrder options (leastNumberOfNosKey c) = Inr (nosRanks options c)"
    unfolding nosRanks_def by (rule rankBySortOrder_total) (rule nosKey_total)
  have m: "rankBySortOrder options (leastNumberOfNosMaybesKey c) =
           Inr (nosMaybesRanks options c)"
    unfolding nosMaybesRanks_def by (rule rankBySortOrder_total) (rule nosMaybesKey_total)
  have s: "rankBySortOrder options (bestScoreKey c) = Inr (scoreRanks options c)"
    unfolding scoreRanks_def by (rule rankBySortOrder_total) (rule scoreKey_total)
  have ov: "rankBySortOrder options
              (overallKey ?n (nosRanks options c) (nosMaybesRanks options c)
                 (scoreRanks options c)) = Inr (overallRanks options c)"
    unfolding overallRanks_def
  proof (rule rankBySortOrder_total)
    fix a assume "a \<in> set options"
    then show "\<exists>v. overallKey ?n (nosRanks options c) (nosMaybesRanks options c)
                     (scoreRanks options c) a = Inr v"
      unfolding nosRanks_def nosMaybesRanks_def scoreRanks_def pureRanks_def
      by (simp add: overallKey_rankP)
  qed
  have ss: "rankByComparator options
              (strictlySuperiorComparator (nosRanks options c) (nosMaybesRanks options c)
                 (scoreRanks options c)) = Inr (superiorRanks options c)"
    unfolding superiorRanks_def
  proof (rule rankByComparator_total)
    fix a b assume "a \<in> set options" "b \<in> set options"
    then show "\<exists>v. strictlySuperiorComparator (nosRanks options c) (nosMaybesRanks options c)
                     (scoreRanks options c) a b = Inr v"
      unfolding nosRanks_def nosMaybesRanks_def scoreRanks_def pureRanks_def
      by (simp add: strictlySuperiorComparator_rankP)
  qed
  have items: "mapE (rankLabelsEntry (nosRanks options c) (nosMaybesRanks options c)
                       (scoreRanks options c) (overallRanks options c)
                       (superiorRanks options c)) (map id' options) =
               Inr (map (\<lambda>i. (i, entryOf options c i)) (map id' options))"
  proof (rule mapE_pure)
    fix i assume "i \<in> set (map id' options)"
    then obtain x where x: "x \<in> set options" and i: "i = id' x" by auto
    show "rankLabelsEntry (nosRanks options c) (nosMaybesRanks options c)
            (scoreRanks options c) (overallRanks options c) (superiorRanks options c) i =
          Inr (i, entryOf options c i)"
      unfolding i entryOf_def
      unfolding nosRanks_def nosMaybesRanks_def scoreRanks_def overallRanks_def
        superiorRanks_def pureRanks_def
      by (rule rankLabelsEntry_rankP [OF x])
  qed
  show ?thesis
    unfolding labelResponses_def Let_def
    by (simp only: c n m s ov ss items bindE_Inr)
qed

subsection \<open>The returned map\<close>

lemma map_of_newMap_aux:
  "map_of (foldl (\<lambda>m (k, v). AList.update k v m) m0 (map (\<lambda>i. (i, e i)) ids)) i =
   (if i \<in> set ids then Some (e i) else map_of m0 i)"
  by (induction ids arbitrary: m0) (auto simp: update_conv')

lemma map_of_newMap:
  "map_of (newMap (map (\<lambda>i. (i, e i)) ids)) i = (if i \<in> set ids then Some (e i) else None)"
  unfolding newMap_def by (simp add: map_of_newMap_aux)

lemma dom_newMap: "dom (map_of (newMap (map (\<lambda>i. (i, e i)) ids))) = set ids"
  by (auto simp: map_of_newMap dom_def)

subsection \<open>The order of the sorted list\<close>

lemma set_insertP [simp]: "set (insertP g x ys) = insert x (set ys)"
  using mset_insertP [of g x ys] by (metis set_mset_add_mset_insert set_mset_mset)









section \<open>The claims\<close>

subsection \<open>Label selection\<close>

text \<open>
  C4. \<^const>\<open>determineMostSignificantLabel\<close> returns one label, the one of the first rule
  that matches, in the order: overall rank 0 gives Best Overall; else overall rank 1 with
  more than two options gives Second Best; else best-score rank 0 gives Most Preferred;
  else fewest-nos rank 0 gives Fewest Nos; else fewest-nos-and-maybes rank 0 gives Fewest
  Nos and Maybes; else a dominance rank above 0 gives Suboptimal; else Nothing. Each label
  is returned exactly when its rule matches and no earlier rule does.
\<close>

theorem determineMostSignificantLabel_cascade:
  "(determineMostSignificantLabel rl n = BestOverall \<longleftrightarrow> overallRank rl = 0) \<and>
   (determineMostSignificantLabel rl n = SecondBest \<longleftrightarrow>
      overallRank rl \<noteq> 0 \<and> overallRank rl = 1 \<and> n > 2) \<and>
   (determineMostSignificantLabel rl n = MostPreferred \<longleftrightarrow>
      overallRank rl \<noteq> 0 \<and> \<not> (overallRank rl = 1 \<and> n > 2) \<and> bestScoreRank rl = 0) \<and>
   (determineMostSignificantLabel rl n = FewestNos \<longleftrightarrow>
      overallRank rl \<noteq> 0 \<and> \<not> (overallRank rl = 1 \<and> n > 2) \<and> bestScoreRank rl \<noteq> 0 \<and>
      leastNumberOfNosRank rl = 0) \<and>
   (determineMostSignificantLabel rl n = FewestNosMaybes \<longleftrightarrow>
      overallRank rl \<noteq> 0 \<and> \<not> (overallRank rl = 1 \<and> n > 2) \<and> bestScoreRank rl \<noteq> 0 \<and>
      leastNumberOfNosRank rl \<noteq> 0 \<and> leastNumberOfNosMaybesRank rl = 0) \<and>
   (determineMostSignificantLabel rl n = Suboptimal \<longleftrightarrow>
      overallRank rl \<noteq> 0 \<and> \<not> (overallRank rl = 1 \<and> n > 2) \<and> bestScoreRank rl \<noteq> 0 \<and>
      leastNumberOfNosRank rl \<noteq> 0 \<and> leastNumberOfNosMaybesRank rl \<noteq> 0 \<and>
      strictlySuperiorRank rl > 0) \<and>
   (determineMostSignificantLabel rl n = Nothing \<longleftrightarrow>
      overallRank rl \<noteq> 0 \<and> \<not> (overallRank rl = 1 \<and> n > 2) \<and> bestScoreRank rl \<noteq> 0 \<and>
      leastNumberOfNosRank rl \<noteq> 0 \<and> leastNumberOfNosMaybesRank rl \<noteq> 0 \<and>
      \<not> strictlySuperiorRank rl > 0)"
  unfolding determineMostSignificantLabel_def by simp

subsection \<open>No lookup fails\<close>

text \<open>
  C8. For every option list and every response list \<^const>\<open>labelResponses\<close> returns a
  map and throws nothing: no \<^const>\<open>assertNotNull\<close> fails and the
  \<^verbatim>\<open>Could not find rank\<close> branch is not taken, since an exception of a lookup would
  be the result. The keys of the returned map are the identifiers of the options of the
  input list, so every option of the input has an entry.
\<close>

theorem labelResponses_total:
  "\<exists>labels. labelResponses options responses = Inr labels \<and>
            dom (map_of labels) = id' ` set options"
proof -
  obtain c where c: "responsePreferenceCardianlity (concat (map selectedOptions responses)) = Inr c"
    using cardinality_total by blast
  have "dom (map_of (newMap (map (\<lambda>i. (i, entryOf options c i)) (map id' options)))) =
        id' ` set options"
    by (simp only: dom_newMap set_map)
  then show ?thesis
    using labelResponses_pure [OF c] by simp
qed

subsection \<open>The rank assignment utility\<close>



subsection \<open>The tally of one option\<close>

lemma cardinalityLoop_lookup:
  assumes "responsePreferenceCardianlityLoop m sels = Inr c"
  shows "map_of c i = tallyFrom (map_of m i) (filter (\<lambda>s. optionId s = i) sels)"
  using assms
proof (induction sels arbitrary: m)
  case Nil
  then show ?case by simp
next
  case (Cons s sels)
  define pref where "pref = (case map_of m (optionId s) of None \<Rightarrow> [] | Some p \<Rightarrow> p)"
  define pref' where "pref' = AList.update (preference s)
      ((case map_of pref (preference s) of None \<Rightarrow> 0 | Some c \<Rightarrow> c) + 1) pref"
  define s1 where "s1 = (if map_of m (optionId s) = None
      then AList.update (optionId s) [] m else m)"
  have s1: "map_of s1 (optionId s) = Some pref"
    by (cases "map_of m (optionId s)") (simp_all add: s1_def pref_def update_conv')
  define m2 where "m2 = AList.update (optionId s) pref' s1"
  have m2: "map_of m2 = (map_of m)(optionId s \<mapsto> pref')"
    by (cases "map_of m (optionId s)") (simp_all add: m2_def s1_def update_conv')
  have "responsePreferenceCardianlityLoop m (s # sels) =
        responsePreferenceCardianlityLoop m2 sels"
    using s1 by (simp add: Let_def s1_def [symmetric] pref'_def m2_def)
  then have "responsePreferenceCardianlityLoop m2 sels = Inr c"
    using Cons.prems by simp
  then have ih: "map_of c i = tallyFrom (map_of m2 i) (filter (\<lambda>s. optionId s = i) sels)"
    by (rule Cons.IH)
  show ?case
  proof (cases "optionId s = i")
    case True
    then show ?thesis
      using ih m2 by (simp add: pref'_def pref_def Let_def)
  next
    case False
    then show ?thesis
      using ih m2 by simp
  qed
qed

lemma cardinality_lookup:
  assumes "responsePreferenceCardianlity sels = Inr c"
  shows "map_of c i = tallyFrom None (filter (\<lambda>s. optionId s = i) sels)"
  using cardinalityLoop_lookup [of "[]" sels c i] assms
  by (simp add: responsePreferenceCardianlity_def)

lemma tallyFrom_Some: "ss \<noteq> [] \<or> t \<noteq> None \<Longrightarrow> tallyFrom t ss \<noteq> None"
  by (induction ss arbitrary: t) auto

lemma cardinality_absent:
  assumes "responsePreferenceCardianlity sels = Inr c"
  shows "map_of c i = None \<longleftrightarrow> i \<notin> optionId ` set sels"
proof (cases "filter (\<lambda>s. optionId s = i) sels = []")
  case True
  then have "i \<notin> optionId ` set sels"
    by (auto simp: filter_empty_conv)
  then show ?thesis
    using cardinality_lookup [OF assms, of i] True by simp
next
  case False
  then have "i \<in> optionId ` set sels"
    by (auto simp: filter_empty_conv)
  moreover have "map_of c i \<noteq> None"
    using cardinality_lookup [OF assms, of i] tallyFrom_Some [of _ None] False by simp
  ultimately show ?thesis by simp
qed

lemma sorted_key_index:
  assumes "sorted (map f xs)" "i < length xs" "j < length xs" "f (xs ! j) < f (xs ! i)"
  shows "j < i"
proof (rule ccontr)
  assume "\<not> j < i"
  then have "i \<le> j" by simp
  then have "map f xs ! i \<le> map f xs ! j"
    using assms(1,3) by (simp add: sorted_iff_nth_mono)
  then show False
    using assms(2,3,4) by simp
qed

subsection \<open>Absent keys\<close>

text \<open>
  C3. In a ranking by a key function, two absent keys compare equal (0), an absent key
  compares greater than a present one (1, and - 1 the other way round), and two present
  keys compare by their difference, so in ascending numeric order. In the ranked list
  every item with an absent key stands after every item with a present key and has a
  strictly greater rank. An option has an entry in the tally exactly when some Selected
  Option names it: an option that no Selected Option names has no entry (it is not given
  a zero count), and its three tally keys (fewest nos, fewest nos and maybes, best score)
  are all absent.
\<close>

theorem absent_key_sorts_last:
  assumes "responsePreferenceCardianlity sels = Inr c"
  shows
    "sortOrderToComparator (\<lambda>x. Inr (k x)) a b =
       Inr (case (k a, k b) of
              (None, None) \<Rightarrow> 0
            | (None, Some y) \<Rightarrow> 1
            | (Some x, None) \<Rightarrow> - 1
            | (Some x, Some y) \<Rightarrow> x - y) \<and>
     (\<exists>res. rankBySortOrder arr (\<lambda>x. Inr (k x)) = Inr res \<and>
        (\<forall>i j. i < length res \<and> j < length res \<and>
               k (item (res ! i)) = None \<and> k (item (res ! j)) \<noteq> None \<longrightarrow>
               j < i \<and> rank (res ! j) < rank (res ! i))) \<and>
     (map_of c (id' x) = None \<longleftrightarrow> id' x \<notin> optionId ` set sels) \<and>
     (id' x \<notin> optionId ` set sels \<longrightarrow>
        leastNumberOfNosKey c x = Inr None \<and>
        leastNumberOfNosMaybesKey c x = Inr None \<and>
        bestScoreKey c x = Inr None)"
proof -
  have cmp: "sortOrderToComparator (\<lambda>x. Inr (k x)) a b =
       Inr (case (k a, k b) of
              (None, None) \<Rightarrow> 0
            | (None, Some y) \<Rightarrow> 1
            | (Some x, None) \<Rightarrow> - 1
            | (Some x, Some y) \<Rightarrow> x - y)"
    by (simp add: sortOrderToComparator_def split: option.splits)
  let ?res = "rankP (keyComparator k) arr"
  let ?kv = "\<lambda>x. keyval (k x)"
  have res: "rankBySortOrder arr (\<lambda>x. Inr (k x)) = Inr ?res"
    by (rule rankBySortOrder_pure) simp
  have items: "map item ?res = sortP (keyComparator k) arr"
    by (simp add: rankP_def)
  have srt: "sorted (map ?kv (map item ?res))"
    unfolding items by (rule sorted_sortP_key)
  have pos: "j < i \<and> rank (?res ! j) < rank (?res ! i)"
    if i: "i < length ?res" and j: "j < length ?res" and ki: "k (item (?res ! i)) = None"
      and kj: "k (item (?res ! j)) \<noteq> None" for i j
  proof -
    obtain n where n: "k (item (?res ! j)) = Some n"
      using kj by blast
    have lt: "?kv (item (?res ! j)) < ?kv (item (?res ! i))"
      using ki n by (simp add: keyval_None_greatest)
    have "?kv (map item ?res ! j) < ?kv (map item ?res ! i)"
      using lt i j by simp
    then have "j < i"
      using sorted_key_index [OF srt, of i j] i j by simp
    moreover have "rank (?res ! j) < rank (?res ! i)"
      using rankP_key_pairwise [of "?res ! j" k arr "?res ! i"] lt i j
      by (simp only: nth_mem)
    ultimately show ?thesis by simp
  qed
  have absent: "map_of c (id' x) = None \<longleftrightarrow> id' x \<notin> optionId ` set sels"
    by (rule cardinality_absent [OF assms])
  have keys: "leastNumberOfNosKey c x = Inr None \<and>
        leastNumberOfNosMaybesKey c x = Inr None \<and> bestScoreKey c x = Inr None"
    if "id' x \<notin> optionId ` set sels"
    using that absent
    by (simp add: leastNumberOfNosKey_def leastNumberOfNosMaybesKey_def bestScoreKey_def)
  show ?thesis
    using cmp res pos absent keys by blast
qed

theorem absent_key_sorts_last_witness:
  "responsePreferenceCardianlity [\<lparr>preference = 4, uncertain = False, optionId = ''a''\<rparr>] =
     Inr [(''a'', [(4, 1)])] \<and>
   sortOrderToComparator (\<lambda>x. Inr (if id' x = ''a'' then Some 0 else None))
     \<lparr>id' = ''b'', date = ''2023-05-02''\<rparr> \<lparr>id' = ''a'', date = ''2023-05-01''\<rparr> = Inr 1 \<and>
   rankBySortOrder [\<lparr>id' = ''b'', date = ''2023-05-02''\<rparr>, \<lparr>id' = ''a'', date = ''2023-05-01''\<rparr>]
     (\<lambda>x. Inr (if id' x = ''a'' then Some 0 else None)) =
     Inr [\<lparr>item = \<lparr>id' = ''a'', date = ''2023-05-01''\<rparr>, rank = 0\<rparr>,
          \<lparr>item = \<lparr>id' = ''b'', date = ''2023-05-02''\<rparr>, rank = 1\<rparr>] \<and>
   map_of [(''a'', [(4, 1 :: int)])] ''b'' = (None :: Tally option) \<and>
   leastNumberOfNosKey [(''a'', [(4, 1)])] \<lparr>id' = ''b'', date = ''2023-05-02''\<rparr> = Inr None \<and>
   leastNumberOfNosMaybesKey [(''a'', [(4, 1)])] \<lparr>id' = ''b'', date = ''2023-05-02''\<rparr> = Inr None \<and>
   bestScoreKey [(''a'', [(4, 1)])] \<lparr>id' = ''b'', date = ''2023-05-02''\<rparr> = Inr None"
proof -
  have h: "responsePreferenceCardianlity [\<lparr>preference = 4, uncertain = False, optionId = ''a''\<rparr>] =
     Inr [(''a'', [(4, 1)])]"
    by code_simp
  have r: "rankBySortOrder [\<lparr>id' = ''b'', date = ''2023-05-02''\<rparr>, \<lparr>id' = ''a'', date = ''2023-05-01''\<rparr>]
     (\<lambda>x. Inr (if id' x = ''a'' then Some 0 else None)) =
     Inr [\<lparr>item = \<lparr>id' = ''a'', date = ''2023-05-01''\<rparr>, rank = 0\<rparr>,
          \<lparr>item = \<lparr>id' = ''b'', date = ''2023-05-02''\<rparr>, rank = 1\<rparr>]"
    by code_simp
  show ?thesis
    using h r
      absent_key_sorts_last [OF h, of "\<lambda>x. if id' x = ''a'' then Some 0 else None"
        "\<lparr>id' = ''b'', date = ''2023-05-02''\<rparr>" "\<lparr>id' = ''a'', date = ''2023-05-01''\<rparr>"
        "[\<lparr>id' = ''b'', date = ''2023-05-02''\<rparr>, \<lparr>id' = ''a'', date = ''2023-05-01''\<rparr>]"
        "\<lparr>id' = ''b'', date = ''2023-05-02''\<rparr>"]
    by simp
qed

subsection \<open>Ranks and comparators that agree\<close>

lemma ranksFrom_zero:
  assumes "\<And>a b. a \<in> set (p # xs) \<Longrightarrow> b \<in> set (p # xs) \<Longrightarrow> g a b = 0"
    and "q \<in> set (ranksFrom g p r xs)"
  shows "rank q = r"
  using assms by (induction xs arbitrary: p) auto

lemma rankP_zero:
  assumes "\<And>a b. a \<in> set arr \<Longrightarrow> b \<in> set arr \<Longrightarrow> g a b = 0"
    and "q \<in> set (rankP g arr)"
  shows "rank q = 0"
proof (cases "sortP g arr")
  case Nil
  with assms(2) show ?thesis by (simp add: rankP_def ranksOf_def)
next
  case (Cons p xs)
  have set: "set (p # xs) = set arr"
    using set_sortP [of g arr] Cons by simp
  have "q = \<lparr>item = p, rank = 0\<rparr> \<or> q \<in> set (ranksFrom g p 0 xs)"
    using assms(2) Cons by (simp add: rankP_def ranksOf_def)
  then show ?thesis
  proof
    assume "q = \<lparr>item = p, rank = 0\<rparr>"
    then show ?thesis by simp
  next
    assume "q \<in> set (ranksFrom g p 0 xs)"
    then show ?thesis
      using ranksFrom_zero [of p xs g q 0] assms(1) set by blast
  qed
qed

lemma rankAt_zero:
  assumes "\<And>a b. a \<in> set arr \<Longrightarrow> b \<in> set arr \<Longrightarrow> g a b = 0"
  shows "rankAt (rankP g arr) i = 0"
proof (cases "findRank (rankP g arr) i")
  case None
  then show ?thesis by (simp add: rankAt_def)
next
  case (Some q)
  then have "q \<in> set (rankP g arr)"
    using findRank_Some by blast
  then have "rank q = 0"
    using rankP_zero [of arr g q] assms by blast
  then show ?thesis
    using Some by (simp add: rankAt_def)
qed

lemma insertP_cong:
  assumes "\<And>y. y \<in> set ys \<Longrightarrow> g x y = g' x y"
  shows "insertP g x ys = insertP g' x ys"
  using assms by (induction ys) auto

lemma sortP_cong:
  assumes "\<And>a b. a \<in> set xs \<Longrightarrow> b \<in> set xs \<Longrightarrow> g a b = g' a b"
  shows "sortP g xs = sortP g' xs"
  using assms
proof (induction xs)
  case Nil
  then show ?case by simp
next
  case (Cons x xs)
  have "sortP g xs = sortP g' xs"
    using Cons by simp
  moreover have "insertP g x (sortP g' xs) = insertP g' x (sortP g' xs)"
    by (rule insertP_cong) (simp add: Cons.prems)
  ultimately show ?case by simp
qed

lemma ranksFrom_cong:
  assumes "\<And>a b. a \<in> set (p # xs) \<Longrightarrow> b \<in> set (p # xs) \<Longrightarrow> g a b = g' a b"
  shows "ranksFrom g p r xs = ranksFrom g' p r xs"
  using assms by (induction xs arbitrary: p r) auto

lemma rankP_cong:
  assumes "\<And>a b. a \<in> set arr \<Longrightarrow> b \<in> set arr \<Longrightarrow> g a b = g' a b"
  shows "rankP g arr = rankP g' arr"
proof -
  have s: "sortP g arr = sortP g' arr"
    using assms by (rule sortP_cong)
  show ?thesis
  proof (cases "sortP g' arr")
    case Nil
    then show ?thesis by (simp add: rankP_def s ranksOf_def)
  next
    case (Cons p xs)
    have "set (p # xs) = set arr"
      using set_sortP [of g' arr] Cons by simp
    then have "ranksFrom g p 0 xs = ranksFrom g' p 0 xs"
      using assms by (intro ranksFrom_cong) blast
    then show ?thesis
      by (simp add: rankP_def s Cons ranksOf_def)
  qed
qed

lemma pureRanks_cong:
  assumes "\<And>x. x \<in> set arr \<Longrightarrow> f x = f' x"
  shows "pureRanks arr f = pureRanks arr f'"
  unfolding pureRanks_def
  by (rule rankP_cong) (simp add: keyComparator_def assms)

lemma entryOf_cong:
  assumes "\<And>x. x \<in> set options \<Longrightarrow> map_of c (id' x) = map_of c' (id' x)"
  shows "entryOf options c = entryOf options c'"
proof -
  have n: "nosRanks options c = nosRanks options c'"
    unfolding nosRanks_def
    by (rule pureRanks_cong) (simp add: leastNumberOfNosKey_def assms)
  have m: "nosMaybesRanks options c = nosMaybesRanks options c'"
    unfolding nosMaybesRanks_def
    by (rule pureRanks_cong) (simp add: leastNumberOfNosMaybesKey_def assms)
  have s: "scoreRanks options c = scoreRanks options c'"
    unfolding scoreRanks_def
    by (rule pureRanks_cong) (simp add: bestScoreKey_def assms)
  have ov: "overallRanks options c = overallRanks options c'"
    unfolding overallRanks_def n m s ..
  have ss: "superiorRanks options c = superiorRanks options c'"
    unfolding superiorRanks_def n m s ..
  show ?thesis
    unfolding entryOf_def n m s ov ss ..
qed

lemma labelResponses_cong:
  assumes "responsePreferenceCardianlity (concat (map selectedOptions responses)) = Inr c"
    and "responsePreferenceCardianlity (concat (map selectedOptions responses')) = Inr c'"
    and "\<And>x. x \<in> set options \<Longrightarrow> map_of c (id' x) = map_of c' (id' x)"
  shows "labelResponses options responses = labelResponses options responses'"
  using labelResponses_pure [OF assms(1), of options] labelResponses_pure [OF assms(2), of options]
    entryOf_cong [of options c c', OF assms(3)]
  by simp

subsection \<open>The entries of the returned map\<close>

lemma labelResponses_entry:
  assumes c: "responsePreferenceCardianlity (concat (map selectedOptions responses)) = Inr c"
    and l: "labelResponses options responses = Inr labels"
  shows "map_of labels i = (if i \<in> id' ` set options then Some (entryOf options c i) else None)"
proof -
  have "labels = newMap (map (\<lambda>i. (i, entryOf options c i)) (map id' options))"
    using labelResponses_pure [OF c, of options] l by simp
  then show ?thesis
    by (simp only: map_of_newMap set_map)
qed

lemma overallKey_value:
  assumes "x \<in> set options"
  shows "projr (overallKey (int (length options)) (nosRanks options c)
                  (nosMaybesRanks options c) (scoreRanks options c) x) =
         Some (3 * int (length options) + rankAt (scoreRanks options c) (id' x)
               + rankAt (nosMaybesRanks options c) (id' x)
               + rankAt (nosRanks options c) (id' x))"
  unfolding nosRanks_def nosMaybesRanks_def scoreRanks_def pureRanks_def
  by (simp add: overallKey_rankP [OF assms])

lemma superior_value:
  assumes "a \<in> set options" "b \<in> set options"
  shows "projr (strictlySuperiorComparator (nosRanks options c) (nosMaybesRanks options c)
                  (scoreRanks options c) a b) =
         dominanceSign
           (rankAt (nosRanks options c) (id' a) - rankAt (nosRanks options c) (id' b))
           (rankAt (nosMaybesRanks options c) (id' a) - rankAt (nosMaybesRanks options c) (id' b))
           (rankAt (scoreRanks options c) (id' a) - rankAt (scoreRanks options c) (id' b))"
  unfolding nosRanks_def nosMaybesRanks_def scoreRanks_def pureRanks_def
  by (simp add: strictlySuperiorComparator_rankP [OF assms])

lemma entryOf_no_tally:
  assumes "\<And>x. x \<in> set options \<Longrightarrow> map_of c (id' x) = None"
  shows "entryOf options c i =
         \<lparr>leastNumberOfNosRank = 0, leastNumberOfNosMaybesRank = 0, bestScoreRank = 0,
          overallRank = 0, strictlySuperiorRank = 0\<rparr>"
proof -
  have n: "rankAt (nosRanks options c) j = 0" for j
    unfolding nosRanks_def pureRanks_def
    by (rule rankAt_zero) (simp add: keyComparator_def leastNumberOfNosKey_def assms)
  have m: "rankAt (nosMaybesRanks options c) j = 0" for j
    unfolding nosMaybesRanks_def pureRanks_def
    by (rule rankAt_zero) (simp add: keyComparator_def leastNumberOfNosMaybesKey_def assms)
  have s: "rankAt (scoreRanks options c) j = 0" for j
    unfolding scoreRanks_def pureRanks_def
    by (rule rankAt_zero) (simp add: keyComparator_def bestScoreKey_def assms)
  have ov: "rankAt (overallRanks options c) j = 0" for j
    unfolding overallRanks_def pureRanks_def
    by (rule rankAt_zero) (simp add: keyComparator_def overallKey_value n m s)
  have ss: "rankAt (superiorRanks options c) j = 0" for j
    unfolding superiorRanks_def
    by (rule rankAt_zero) (simp add: superior_value n m s dominanceSign_def)
  show ?thesis
    by (simp add: entryOf_def n m s ov ss)
qed

subsection \<open>No selection for any option\<close>

text \<open>
  C7. When no Selected Option names an option of the list (in particular when the
  response list is empty), every option has no tally entry, every option has rank 0 in
  all five criteria (so overall rank 0), and every option gets the label Best Overall.
\<close>

theorem no_selections_all_best:
  assumes "\<forall>s\<in>set (concat (map selectedOptions responses)). optionId s \<notin> id' ` set options"
  shows "\<exists>c labels.
           responsePreferenceCardianlity (concat (map selectedOptions responses)) = Inr c \<and>
           labelResponses options responses = Inr labels \<and>
           (\<forall>x\<in>set options.
              map_of c (id' x) = None \<and>
              map_of labels (id' x) =
                Some \<lparr>leastNumberOfNosRank = 0, leastNumberOfNosMaybesRank = 0,
                      bestScoreRank = 0, overallRank = 0, strictlySuperiorRank = 0\<rparr> \<and>
              labelOf options labels (id' x) = Some BestOverall)"
proof -
  let ?sels = "concat (map selectedOptions responses)"
  obtain c where c: "responsePreferenceCardianlity ?sels = Inr c"
    using cardinality_total by blast
  obtain labels where l: "labelResponses options responses = Inr labels"
    using labelResponses_pure [OF c] by blast
  have none: "map_of c (id' x) = None" if "x \<in> set options" for x
  proof -
    have "id' x \<notin> optionId ` set ?sels"
    proof
      assume "id' x \<in> optionId ` set ?sels"
      then obtain s where s: "s \<in> set ?sels" and e: "id' x = optionId s"
        by (rule imageE)
      have "optionId s \<notin> id' ` set options"
        using assms s by (rule bspec)
      then show False
        using that e by (metis imageI)
    qed
    then show ?thesis
      using cardinality_absent [OF c] by simp
  qed
  have entry: "map_of labels (id' x) =
      Some \<lparr>leastNumberOfNosRank = 0, leastNumberOfNosMaybesRank = 0,
            bestScoreRank = 0, overallRank = 0, strictlySuperiorRank = 0\<rparr>"
    if "x \<in> set options" for x
    using labelResponses_entry [OF c l, of "id' x"] that entryOf_no_tally [of options c "id' x"] none
    by simp
  have label: "labelOf options labels (id' x) = Some BestOverall" if "x \<in> set options" for x
    using entry [OF that] by (simp add: labelOf_def determineMostSignificantLabel_def)
  show ?thesis
    using c l none entry label by blast
qed

theorem no_selections_all_best_witness:
  "labelResponses
     [\<lparr>id' = ''a'', date = ''2023-05-01''\<rparr>, \<lparr>id' = ''b'', date = ''2023-05-02''\<rparr>]
     [\<lparr>respondent = \<lparr>name = None\<rparr>,
       selectedOptions = [\<lparr>preference = 3, uncertain = False, optionId = ''z''\<rparr>]\<rparr>] =
   Inr [(''a'', \<lparr>leastNumberOfNosRank = 0, leastNumberOfNosMaybesRank = 0,
                 bestScoreRank = 0, overallRank = 0, strictlySuperiorRank = 0\<rparr>),
        (''b'', \<lparr>leastNumberOfNosRank = 0, leastNumberOfNosMaybesRank = 0,
                 bestScoreRank = 0, overallRank = 0, strictlySuperiorRank = 0\<rparr>)] \<and>
   labelOf [\<lparr>id' = ''a'', date = ''2023-05-01''\<rparr>, \<lparr>id' = ''b'', date = ''2023-05-02''\<rparr>]
     [(''a'', \<lparr>leastNumberOfNosRank = 0, leastNumberOfNosMaybesRank = 0,
              bestScoreRank = 0, overallRank = 0, strictlySuperiorRank = 0\<rparr>),
      (''b'', \<lparr>leastNumberOfNosRank = 0, leastNumberOfNosMaybesRank = 0,
              bestScoreRank = 0, overallRank = 0, strictlySuperiorRank = 0\<rparr>)] ''b'' =
     Some BestOverall"
proof -
  let ?options = "[\<lparr>id' = ''a'', date = ''2023-05-01''\<rparr>, \<lparr>id' = ''b'', date = ''2023-05-02''\<rparr>]"
  let ?responses = "[\<lparr>respondent = \<lparr>name = None\<rparr>,
       selectedOptions = [\<lparr>preference = 3, uncertain = False, optionId = ''z''\<rparr>]\<rparr>]"
  have e: "labelResponses ?options ?responses =
   Inr [(''a'', \<lparr>leastNumberOfNosRank = 0, leastNumberOfNosMaybesRank = 0,
                 bestScoreRank = 0, overallRank = 0, strictlySuperiorRank = 0\<rparr>),
        (''b'', \<lparr>leastNumberOfNosRank = 0, leastNumberOfNosMaybesRank = 0,
                 bestScoreRank = 0, overallRank = 0, strictlySuperiorRank = 0\<rparr>)]"
    by code_simp
  have h: "\<forall>s\<in>set (concat (map selectedOptions ?responses)). optionId s \<notin> id' ` set ?options"
    by simp
  show ?thesis
    using e no_selections_all_best [OF h] by auto
qed

lemma overallRanks_lookup:
  assumes "x \<in> set options"
  shows "\<exists>q. q \<in> set (overallRanks options c) \<and>
             rankAt (overallRanks options c) (id' x) = rank q \<and>
             projr (overallKey (int (length options)) (nosRanks options c)
                      (nosMaybesRanks options c) (scoreRanks options c) (item q)) =
             Some (3 * int (length options) + rankAt (scoreRanks options c) (id' x)
                   + rankAt (nosMaybesRanks options c) (id' x)
                   + rankAt (nosRanks options c) (id' x))"
proof -
  let ?k = "\<lambda>x. projr (overallKey (int (length options)) (nosRanks options c)
                      (nosMaybesRanks options c) (scoreRanks options c) x)"
  have ov: "overallRanks options c = rankP (keyComparator ?k) options"
    by (simp add: overallRanks_def pureRanks_def)
  obtain q where q: "q \<in> set (rankP (keyComparator ?k) options)"
    and i: "id' (item q) = id' x"
    and r: "rankAt (rankP (keyComparator ?k) options) (id' x) = rank q"
    using findRank_rankP [OF assms, of "keyComparator ?k"] by blast
  have "item q \<in> item ` set (rankP (keyComparator ?k) options)"
    using q by (rule imageI)
  then have "item q \<in> set options"
    by (simp only: set_item_rankP)
  then have "?k (item q) =
      Some (3 * int (length options) + rankAt (scoreRanks options c) (id' (item q))
            + rankAt (nosMaybesRanks options c) (id' (item q))
            + rankAt (nosRanks options c) (id' (item q)))"
    by (rule overallKey_value)
  then show ?thesis
    using q r i unfolding ov by auto
qed

lemma rankP_nonneg: "q \<in> set (rankP g arr) \<Longrightarrow> 0 \<le> rank q"
  unfolding rankP_def by (drule ranksOf_bounds) simp

subsection \<open>Dominated options\<close>

text \<open>
  C5. For every input and every two options A and B of the returned map: when each of
  A's fewest-nos, fewest-nos-and-maybes and best-score ranks is at most the rank of B
  and at least one is strictly less, A's overall rank is strictly less than B's, B's
  overall rank is not 0, and B's label is not Best Overall.
\<close>

theorem dominated_not_best:
  assumes l: "labelResponses options responses = Inr labels"
    and a: "map_of labels a = Some ra" and b: "map_of labels b = Some rb"
    and le: "leastNumberOfNosRank ra \<le> leastNumberOfNosRank rb"
      "leastNumberOfNosMaybesRank ra \<le> leastNumberOfNosMaybesRank rb"
      "bestScoreRank ra \<le> bestScoreRank rb"
    and lt: "leastNumberOfNosRank ra < leastNumberOfNosRank rb \<or>
             leastNumberOfNosMaybesRank ra < leastNumberOfNosMaybesRank rb \<or>
             bestScoreRank ra < bestScoreRank rb"
  shows "overallRank ra < overallRank rb \<and> overallRank rb \<noteq> 0 \<and>
         labelOf options labels b \<noteq> Some BestOverall"
proof -
  obtain c where c: "responsePreferenceCardianlity (concat (map selectedOptions responses)) = Inr c"
    using cardinality_total by blast
  have ea: "a \<in> id' ` set options \<and> ra = entryOf options c a"
    using labelResponses_entry [OF c l, of a] a by (simp split: if_splits)
  have eb: "b \<in> id' ` set options \<and> rb = entryOf options c b"
    using labelResponses_entry [OF c l, of b] b by (simp split: if_splits)
  obtain x where x: "x \<in> set options" "id' x = a" using ea by auto
  obtain y where y: "y \<in> set options" "id' y = b" using eb by auto
  let ?k = "\<lambda>x. projr (overallKey (int (length options)) (nosRanks options c)
                      (nosMaybesRanks options c) (scoreRanks options c) x)"
  have ov: "overallRanks options c = rankP (keyComparator ?k) options"
    by (simp add: overallRanks_def pureRanks_def)
  obtain qa where qa: "qa \<in> set (overallRanks options c)"
    and ra: "overallRank ra = rank qa"
    and ka: "?k (item qa) = Some (3 * int (length options) + bestScoreRank ra
                                  + leastNumberOfNosMaybesRank ra + leastNumberOfNosRank ra)"
    using overallRanks_lookup [OF x(1), of c] x(2) ea by (auto simp: entryOf_def)
  obtain qb where qb: "qb \<in> set (overallRanks options c)"
    and rb: "overallRank rb = rank qb"
    and kb: "?k (item qb) = Some (3 * int (length options) + bestScoreRank rb
                                  + leastNumberOfNosMaybesRank rb + leastNumberOfNosRank rb)"
    using overallRanks_lookup [OF y(1), of c] y(2) eb by (auto simp: entryOf_def)
  have "keyval (?k (item qa)) < keyval (?k (item qb))"
    unfolding ka kb keyval_Some_less using le lt by linarith
  then have "rank qa < rank qb"
    using rankP_key_pairwise [of qa ?k options qb] qa qb unfolding ov by blast
  moreover have "0 \<le> rank qa"
    using qa unfolding ov by (rule rankP_nonneg)
  ultimately have r: "overallRank ra < overallRank rb \<and> overallRank rb \<noteq> 0"
    using ra rb by simp
  then have "labelOf options labels b \<noteq> Some BestOverall"
    using b by (simp add: labelOf_def determineMostSignificantLabel_def)
  with r show ?thesis by simp
qed

theorem dominated_not_best_witness:
  "labelResponses
     [\<lparr>id' = ''a'', date = ''2023-05-01''\<rparr>, \<lparr>id' = ''b'', date = ''2023-05-02''\<rparr>]
     [\<lparr>respondent = \<lparr>name = None\<rparr>,
       selectedOptions = [\<lparr>preference = 4, uncertain = False, optionId = ''a''\<rparr>]\<rparr>] =
   Inr [(''a'', \<lparr>leastNumberOfNosRank = 0, leastNumberOfNosMaybesRank = 0,
                 bestScoreRank = 0, overallRank = 0, strictlySuperiorRank = 0\<rparr>),
        (''b'', \<lparr>leastNumberOfNosRank = 1, leastNumberOfNosMaybesRank = 1,
                 bestScoreRank = 1, overallRank = 1, strictlySuperiorRank = 1\<rparr>)] \<and>
   labelOf [\<lparr>id' = ''a'', date = ''2023-05-01''\<rparr>, \<lparr>id' = ''b'', date = ''2023-05-02''\<rparr>]
     [(''a'', \<lparr>leastNumberOfNosRank = 0, leastNumberOfNosMaybesRank = 0,
              bestScoreRank = 0, overallRank = 0, strictlySuperiorRank = 0\<rparr>),
      (''b'', \<lparr>leastNumberOfNosRank = 1, leastNumberOfNosMaybesRank = 1,
              bestScoreRank = 1, overallRank = 1, strictlySuperiorRank = 1\<rparr>)] ''b''
     \<noteq> Some BestOverall"
proof -
  have e: "labelResponses
     [\<lparr>id' = ''a'', date = ''2023-05-01''\<rparr>, \<lparr>id' = ''b'', date = ''2023-05-02''\<rparr>]
     [\<lparr>respondent = \<lparr>name = None\<rparr>,
       selectedOptions = [\<lparr>preference = 4, uncertain = False, optionId = ''a''\<rparr>]\<rparr>] =
   Inr [(''a'', \<lparr>leastNumberOfNosRank = 0, leastNumberOfNosMaybesRank = 0,
                 bestScoreRank = 0, overallRank = 0, strictlySuperiorRank = 0\<rparr>),
        (''b'', \<lparr>leastNumberOfNosRank = 1, leastNumberOfNosMaybesRank = 1,
                 bestScoreRank = 1, overallRank = 1, strictlySuperiorRank = 1\<rparr>)]"
    by code_simp
  show ?thesis
    using e
      dominated_not_best [OF e, of "''a''"
        "\<lparr>leastNumberOfNosRank = 0, leastNumberOfNosMaybesRank = 0,
          bestScoreRank = 0, overallRank = 0, strictlySuperiorRank = 0\<rparr>"
        "''b''"
        "\<lparr>leastNumberOfNosRank = 1, leastNumberOfNosMaybesRank = 1,
          bestScoreRank = 1, overallRank = 1, strictlySuperiorRank = 1\<rparr>"]
    by simp
qed

text \<open>
  C6. An option whose dominance rank is above 0 should be dominated by another option:
  the cascade calls it Suboptimal. The code is evaluated at an input where this fails.
  The ranks (fewest nos, fewest nos and maybes, best score) are a = (0, 2, 0),
  b = (1, 3, 1), c = (1, 1, 2), d = (0, 0, 3): a dominates b, and c is dominated by
  no option (a and b have a greater fewest-nos-and-maybes rank, d a greater best-score
  rank). The comparator returns - 1 on (a, b), 0 on (b, c) and 0 on (c, d), so the list
  is in order as it stands; b gets rank 1, and c, which compares 0 with b, takes over
  the rank 1 and is labelled Suboptimal.
\<close>

theorem undominated_option_suboptimal:
  "labelResponses
     [\<lparr>id' = ''a'', date = ''2023-05-01''\<rparr>, \<lparr>id' = ''b'', date = ''2023-05-02''\<rparr>,
      \<lparr>id' = ''c'', date = ''2023-05-03''\<rparr>, \<lparr>id' = ''d'', date = ''2023-05-04''\<rparr>]
     [\<lparr>respondent = \<lparr>name = None\<rparr>,
       selectedOptions = [\<lparr>preference = 0, uncertain = False, optionId = ''a''\<rparr>,
                          \<lparr>preference = - 1, uncertain = False, optionId = ''b''\<rparr>,
                          \<lparr>preference = - 1, uncertain = False, optionId = ''c''\<rparr>,
                          \<lparr>preference = 1, uncertain = False, optionId = ''d''\<rparr>]\<rparr>,
      \<lparr>respondent = \<lparr>name = None\<rparr>,
       selectedOptions = [\<lparr>preference = 0, uncertain = False, optionId = ''a''\<rparr>,
                          \<lparr>preference = 0, uncertain = False, optionId = ''b''\<rparr>,
                          \<lparr>preference = 3, uncertain = False, optionId = ''c''\<rparr>]\<rparr>,
      \<lparr>respondent = \<lparr>name = None\<rparr>,
       selectedOptions = [\<lparr>preference = 4, uncertain = False, optionId = ''a''\<rparr>,
                          \<lparr>preference = 0, uncertain = False, optionId = ''b''\<rparr>]\<rparr>,
      \<lparr>respondent = \<lparr>name = None\<rparr>,
       selectedOptions = [\<lparr>preference = 4, uncertain = False, optionId = ''b''\<rparr>]\<rparr>] =
   Inr [(''a'', \<lparr>leastNumberOfNosRank = 0, leastNumberOfNosMaybesRank = 2,
                 bestScoreRank = 0, overallRank = 0, strictlySuperiorRank = 0\<rparr>),
        (''b'', \<lparr>leastNumberOfNosRank = 1, leastNumberOfNosMaybesRank = 3,
                 bestScoreRank = 1, overallRank = 3, strictlySuperiorRank = 1\<rparr>),
        (''c'', \<lparr>leastNumberOfNosRank = 1, leastNumberOfNosMaybesRank = 1,
                 bestScoreRank = 2, overallRank = 2, strictlySuperiorRank = 1\<rparr>),
        (''d'', \<lparr>leastNumberOfNosRank = 0, leastNumberOfNosMaybesRank = 0,
                 bestScoreRank = 3, overallRank = 1, strictlySuperiorRank = 1\<rparr>)] \<and>
   determineMostSignificantLabel
     \<lparr>leastNumberOfNosRank = 1, leastNumberOfNosMaybesRank = 1,
      bestScoreRank = 2, overallRank = 2, strictlySuperiorRank = 1\<rparr> 4 = Suboptimal \<and>
   \<not> leastNumberOfNosMaybesRank
       \<lparr>leastNumberOfNosRank = 0, leastNumberOfNosMaybesRank = 2,
        bestScoreRank = 0, overallRank = 0, strictlySuperiorRank = 0\<rparr>
     \<le> leastNumberOfNosMaybesRank
         \<lparr>leastNumberOfNosRank = 1, leastNumberOfNosMaybesRank = 1,
          bestScoreRank = 2, overallRank = 2, strictlySuperiorRank = 1\<rparr> \<and>
   \<not> leastNumberOfNosMaybesRank
       \<lparr>leastNumberOfNosRank = 1, leastNumberOfNosMaybesRank = 3,
        bestScoreRank = 1, overallRank = 3, strictlySuperiorRank = 1\<rparr>
     \<le> leastNumberOfNosMaybesRank
         \<lparr>leastNumberOfNosRank = 1, leastNumberOfNosMaybesRank = 1,
          bestScoreRank = 2, overallRank = 2, strictlySuperiorRank = 1\<rparr> \<and>
   \<not> bestScoreRank
       \<lparr>leastNumberOfNosRank = 0, leastNumberOfNosMaybesRank = 0,
        bestScoreRank = 3, overallRank = 1, strictlySuperiorRank = 1\<rparr>
     \<le> bestScoreRank
         \<lparr>leastNumberOfNosRank = 1, leastNumberOfNosMaybesRank = 1,
          bestScoreRank = 2, overallRank = 2, strictlySuperiorRank = 1\<rparr>"
  by code_simp

subsection \<open>Selections that do not count\<close>

lemma cardinalityLoop_flags:
  assumes "list_all2 (\<lambda>s s'. optionId s = optionId s' \<and> preference s = preference s') sels sels'"
  shows "responsePreferenceCardianlityLoop m sels = responsePreferenceCardianlityLoop m sels'"
  using assms by (induction arbitrary: m rule: list_all2_induct) (simp_all add: Let_def)

lemma list_all2_concat:
  assumes "list_all2 (list_all2 P) xss yss"
  shows "list_all2 P (concat xss) (concat yss)"
  using assms by (induction rule: list_all2_induct) (simp_all add: list_all2_appendI)

text \<open>
  C10. Two response lists whose Selected Options agree, position by position, in
  \<^const>\<open>optionId\<close> and \<^const>\<open>preference\<close> give the same result of
  \<^const>\<open>labelResponses\<close>: the \<^const>\<open>uncertain\<close> flags have no influence on any tally,
  rank or label.
\<close>

theorem uncertain_flag_ignored:
  assumes "list_all2
             (\<lambda>r r'. list_all2 (\<lambda>s s'. optionId s = optionId s' \<and> preference s = preference s')
                        (selectedOptions r) (selectedOptions r'))
             responses responses'"
  shows "labelResponses options responses = labelResponses options responses'"
proof -
  have "list_all2 (list_all2 (\<lambda>s s'. optionId s = optionId s' \<and> preference s = preference s'))
          (map selectedOptions responses) (map selectedOptions responses')"
    using assms by (simp add: list_all2_map1 list_all2_map2)
  then have "list_all2 (\<lambda>s s'. optionId s = optionId s' \<and> preference s = preference s')
          (concat (map selectedOptions responses)) (concat (map selectedOptions responses'))"
    by (rule list_all2_concat)
  then have "responsePreferenceCardianlity (concat (map selectedOptions responses)) =
             responsePreferenceCardianlity (concat (map selectedOptions responses'))"
    unfolding responsePreferenceCardianlity_def by (rule cardinalityLoop_flags)
  moreover have "length responses = length responses'"
    using assms by (rule list_all2_lengthD)
  ultimately show ?thesis
    unfolding labelResponses_def Let_def by simp
qed

theorem uncertain_flag_ignored_witness:
  "list_all2
     (\<lambda>r r'. list_all2 (\<lambda>s s'. optionId s = optionId s' \<and> preference s = preference s')
                (selectedOptions r) (selectedOptions r'))
     [\<lparr>respondent = \<lparr>name = None\<rparr>,
       selectedOptions = [\<lparr>preference = 4, uncertain = False, optionId = ''a''\<rparr>]\<rparr>]
     [\<lparr>respondent = \<lparr>name = None\<rparr>,
       selectedOptions = [\<lparr>preference = 4, uncertain = True, optionId = ''a''\<rparr>]\<rparr>] \<and>
   labelResponses
     [\<lparr>id' = ''a'', date = ''2023-05-01''\<rparr>, \<lparr>id' = ''b'', date = ''2023-05-02''\<rparr>]
     [\<lparr>respondent = \<lparr>name = None\<rparr>,
       selectedOptions = [\<lparr>preference = 4, uncertain = False, optionId = ''a''\<rparr>]\<rparr>] =
   labelResponses
     [\<lparr>id' = ''a'', date = ''2023-05-01''\<rparr>, \<lparr>id' = ''b'', date = ''2023-05-02''\<rparr>]
     [\<lparr>respondent = \<lparr>name = None\<rparr>,
       selectedOptions = [\<lparr>preference = 4, uncertain = True, optionId = ''a''\<rparr>]\<rparr>]"
proof -
  have h: "list_all2
     (\<lambda>r r'. list_all2 (\<lambda>s s'. optionId s = optionId s' \<and> preference s = preference s')
                (selectedOptions r) (selectedOptions r'))
     [\<lparr>respondent = \<lparr>name = None\<rparr>,
       selectedOptions = [\<lparr>preference = 4, uncertain = False, optionId = ''a''\<rparr>]\<rparr>]
     [\<lparr>respondent = \<lparr>name = None\<rparr>,
       selectedOptions = [\<lparr>preference = 4, uncertain = True, optionId = ''a''\<rparr>]\<rparr>]"
    by simp
  show ?thesis
    using h uncertain_flag_ignored [OF h] by blast
qed

text \<open>
  C9. A Selected Option whose \<^const>\<open>optionId\<close> is the identifier of no option of the
  list can be added to or removed from any response, at any place, without changing the
  result of \<^const>\<open>labelResponses\<close>; the result is a map (no error), and the map has no
  entry for the unknown identifier.
\<close>

theorem unknown_option_ignored:
  assumes "optionId s \<notin> id' ` set options"
  shows "labelResponses options
           (pre @ r\<lparr>selectedOptions := before @ s # after\<rparr> # post) =
         labelResponses options
           (pre @ r\<lparr>selectedOptions := before @ after\<rparr> # post) \<and>
         (\<exists>labels. labelResponses options
                      (pre @ r\<lparr>selectedOptions := before @ s # after\<rparr> # post) = Inr labels \<and>
                    map_of labels (optionId s) = None)"
proof -
  let ?with = "pre @ r\<lparr>selectedOptions := before @ s # after\<rparr> # post"
  let ?without = "pre @ r\<lparr>selectedOptions := before @ after\<rparr> # post"
  obtain c where c: "responsePreferenceCardianlity (concat (map selectedOptions ?with)) = Inr c"
    using cardinality_total by blast
  obtain c' where
    c': "responsePreferenceCardianlity (concat (map selectedOptions ?without)) = Inr c'"
    using cardinality_total by blast
  have same: "map_of c (id' x) = map_of c' (id' x)" if "x \<in> set options" for x
  proof -
    have "optionId s \<noteq> id' x"
      using assms that by (metis imageI)
    then have "filter (\<lambda>t. optionId t = id' x) (concat (map selectedOptions ?with)) =
               filter (\<lambda>t. optionId t = id' x) (concat (map selectedOptions ?without))"
      by simp
    then show ?thesis
      using cardinality_lookup [OF c, of "id' x"] cardinality_lookup [OF c', of "id' x"]
      by simp
  qed
  have eq: "labelResponses options ?with = labelResponses options ?without"
    using c c' same by (rule labelResponses_cong)
  obtain labels where l: "labelResponses options ?with = Inr labels"
    using labelResponses_pure [OF c] by blast
  have "map_of labels (optionId s) = None"
    using labelResponses_entry [OF c l, of "optionId s"] assms by simp
  with eq l show ?thesis by blast
qed

theorem unknown_option_ignored_witness:
  "optionId \<lparr>preference = 3, uncertain = False, optionId = ''z''\<rparr> \<notin>
     id' ` set [\<lparr>id' = ''a'', date = ''2023-05-01''\<rparr>, \<lparr>id' = ''b'', date = ''2023-05-02''\<rparr>] \<and>
   labelResponses
     [\<lparr>id' = ''a'', date = ''2023-05-01''\<rparr>, \<lparr>id' = ''b'', date = ''2023-05-02''\<rparr>]
     [\<lparr>respondent = \<lparr>name = None\<rparr>,
       selectedOptions = [\<lparr>preference = 4, uncertain = False, optionId = ''a''\<rparr>,
                          \<lparr>preference = 3, uncertain = False, optionId = ''z''\<rparr>]\<rparr>] =
   labelResponses
     [\<lparr>id' = ''a'', date = ''2023-05-01''\<rparr>, \<lparr>id' = ''b'', date = ''2023-05-02''\<rparr>]
     [\<lparr>respondent = \<lparr>name = None\<rparr>,
       selectedOptions = [\<lparr>preference = 4, uncertain = False, optionId = ''a''\<rparr>]\<rparr>]"
proof -
  have h: "optionId \<lparr>preference = 3, uncertain = False, optionId = ''z''\<rparr> \<notin>
     id' ` set [\<lparr>id' = ''a'', date = ''2023-05-01''\<rparr>, \<lparr>id' = ''b'', date = ''2023-05-02''\<rparr>]"
    by simp
  show ?thesis
    using h
      unknown_option_ignored [OF h, where pre = "[]"
        and r = "\<lparr>respondent = \<lparr>name = None\<rparr>, selectedOptions = []\<rparr>"
        and before = "[\<lparr>preference = 4, uncertain = False, optionId = ''a''\<rparr>]"
        and after = "[]" and post = "[]"]
    by simp
qed

subsection \<open>The overall key\<close>

text \<open>
  C1. The overall key of an option is the sum over i = 0, 1, 2 of i * N + rank_i, with
  its best-score, fewest-nos-and-maybes and fewest-nos ranks in this order: that is
  3 * N plus the sum of the three ranks (lemma \<open>aggregateRankScore_3\<close>), and no rank
  weighs more than another. The code is evaluated at an input where option a has the
  smaller fewest-nos rank (0 against 1 of option b) and the larger key (8 against 7):
  a gets overall rank 1 and b overall rank 0.
\<close>

theorem overall_key_inversion:
  "labelResponses
     [\<lparr>id' = ''a'', date = ''2023-05-01''\<rparr>, \<lparr>id' = ''b'', date = ''2023-05-02''\<rparr>]
     [\<lparr>respondent = \<lparr>name = None\<rparr>,
       selectedOptions = [\<lparr>preference = 0, uncertain = False, optionId = ''a''\<rparr>,
                          \<lparr>preference = - 1, uncertain = False, optionId = ''b''\<rparr>]\<rparr>,
      \<lparr>respondent = \<lparr>name = None\<rparr>,
       selectedOptions = [\<lparr>preference = 0, uncertain = False, optionId = ''a''\<rparr>,
                          \<lparr>preference = 4, uncertain = False, optionId = ''b''\<rparr>]\<rparr>,
      \<lparr>respondent = \<lparr>name = None\<rparr>,
       selectedOptions = [\<lparr>preference = 0, uncertain = False, optionId = ''a''\<rparr>]\<rparr>] =
   Inr [(''a'', \<lparr>leastNumberOfNosRank = 0, leastNumberOfNosMaybesRank = 1,
                 bestScoreRank = 1, overallRank = 1, strictlySuperiorRank = 0\<rparr>),
        (''b'', \<lparr>leastNumberOfNosRank = 1, leastNumberOfNosMaybesRank = 0,
                 bestScoreRank = 0, overallRank = 0, strictlySuperiorRank = 0\<rparr>)] \<and>
   aggregateRankScore 2
     [\<lparr>item = \<lparr>id' = ''a'', date = ''2023-05-01''\<rparr>, rank = 1\<rparr>,
      \<lparr>item = \<lparr>id' = ''a'', date = ''2023-05-01''\<rparr>, rank = 1\<rparr>,
      \<lparr>item = \<lparr>id' = ''a'', date = ''2023-05-01''\<rparr>, rank = 0\<rparr>] = 8 \<and>
   aggregateRankScore 2
     [\<lparr>item = \<lparr>id' = ''b'', date = ''2023-05-02''\<rparr>, rank = 0\<rparr>,
      \<lparr>item = \<lparr>id' = ''b'', date = ''2023-05-02''\<rparr>, rank = 0\<rparr>,
      \<lparr>item = \<lparr>id' = ''b'', date = ''2023-05-02''\<rparr>, rank = 1\<rparr>] = 7"
  by code_simp

end
